theory Spec2Isabelle
  imports Complex_Main "HOL-Library.Word"
begin

unbundle bit_operations_syntax

section \<open>The pyc (marshal) decoder of format/python/pyc.go\<close>

text \<open>
  The Go file decodes a compiled Python container: a 16-byte header and one marshalled
  object. All of its work is done through a decoder handle \<open>d *decode.D\<close>: reads advance
  the cursor of \<open>d\<close>, and every \<open>d.Field...\<close> call adds a named field to the value tree
  that \<open>d\<close> is building. The handle is modelled as a record that is passed through every
  call; a failing read or a Go \<open>panic\<close> is the \<open>Inl\<close> branch of the result.
\<close>

subsection \<open>Decoder state, value tree, errors\<close>

type_synonym byte = "8 word"
type_synonym uint64 = "64 word"

datatype Endian = BigEndian | LittleEndian

datatype encoding = UTF8

text \<open>
  The value tree. \<open>Uint\<close> carries the symbol and description that a \<open>scalar.UintMap\<close>
  attached to it, if any; \<open>Flt\<close> carries the 64-bit IEEE-754 pattern of a Go \<open>float64\<close>;
  \<open>Str\<close> carries the UTF-8 bytes of a Go string; the children of a struct or array are
  kept in the order in which they were added, each with its field name.
\<close>

datatype Value =
    Uint uint64 "(string \<times> string) option"
  | Sint int
  | Flt uint64
  | Raw "byte list"
  | Str "byte list"
  | Struct "(string \<times> Value) list"
  | Array "(string \<times> Value) list"

text \<open>
  \<open>TruncatedInput\<close>, \<open>MalformedLength\<close> and \<open>TextDecodeError\<close> are the failures of the
  reading primitives; \<open>Panic\<close> is a Go \<open>panic\<close> with its message. \<open>OutOfFuel\<close> is not an
  error of the program: it is what the model returns when the recursion budget of
  \<open>r_object\<close> below is used up (see \<open>r_object_enough_fuel\<close>).
\<close>

datatype error = TruncatedInput | MalformedLength | TextDecodeError | Panic string | OutOfFuel

record D =
  Endian :: Endian
  bytes :: "byte list"
  children :: "(string \<times> Value) list"

text \<open>A Go function or closure \<open>func(d *decode.D) T\<close>.\<close>

type_synonym 'a dec = "D \<Rightarrow> error + ('a \<times> D)"

definition ret :: "'a \<Rightarrow> 'a dec" where
  "ret x d = Inr (x, d)"

definition fail :: "error \<Rightarrow> 'a dec" where
  "fail e d = Inl e"

definition bnd :: "'a dec \<Rightarrow> ('a \<Rightarrow> 'b dec) \<Rightarrow> 'b dec" where
  "bnd m f d = (case m d of Inl e \<Rightarrow> Inl e | Inr (x, d') \<Rightarrow> f x d')"

definition thn :: "'a dec \<Rightarrow> 'b dec \<Rightarrow> 'b dec" where
  "thn m1 m2 = bnd m1 (\<lambda>_. m2)"

text \<open>A call whose result the Go code drops.\<close>

definition void :: "'a dec \<Rightarrow> unit dec" where
  "void m = bnd m (\<lambda>_. ret ())"

text \<open>Go's \<open>panic(msg)\<close>.\<close>

definition panic :: "string \<Rightarrow> 'a dec" where
  "panic msg = fail (Panic msg)"

subsection \<open>The decode package: reading primitives\<close>

text \<open>
  Modelled from the spec: package \<open>pkg/decode\<close> (the type \<open>decode.D\<close> and its methods
  \<open>U8\<close>, \<open>FieldU8\<close>, \<open>FieldU32\<close>, \<open>FieldS32\<close>, \<open>FieldS64\<close>, \<open>FieldF64\<close>, \<open>FieldRawLen\<close>,
  \<open>FieldStr\<close>, \<open>FieldUTF8ShortString\<close>, \<open>FieldUintFn\<close>, \<open>FieldStruct\<close>, \<open>FieldArray\<close>,
  \<open>FieldStructNArray\<close>) is not part of the source file. The spec describes it as the
  Primitive Readers ("read fixed-width little-endian integers (8/32/64-bit,
  signed/unsigned), IEEE-754 doubles, and length-prefixed or single-byte-length text, from
  the current stream position, advancing the cursor"), the List/Sequence Helper
  ("decodes n objects by repeated invocation, preserving order; n < 0 is a
  malformed-length error"), the "emit field" capability (named record fields,
  positionally ordered container children) and the error taxonomy (TruncatedInput: "fewer
  bytes remain than a primitive read requires"; MalformedLength: "a declared count/length
  is negative or would read past the end of the available input"; TextDecodeError:
  "declared-length bytes are not valid UTF-8 for a text variant"). The byte order is the
  \<open>Endian\<close> field of the handle, which \<open>decodePYC\<close> sets to little-endian.
\<close>

text \<open>
  Modelled from the spec: the number that a run of bytes denotes, little-endian (least
  significant byte first) or big-endian.
\<close>

fun le_nat :: "byte list \<Rightarrow> nat" where
  "le_nat [] = 0"
| "le_nat (b # bs) = unat b + 256 * le_nat bs"

text \<open>Modelled from the spec: the same, in the byte order of the handle.\<close>

definition bytes_nat :: "Endian \<Rightarrow> byte list \<Rightarrow> nat" where
  "bytes_nat e bs = (case e of LittleEndian \<Rightarrow> le_nat bs | BigEndian \<Rightarrow> le_nat (rev bs))"

text \<open>Modelled from the spec: a fixed-width read of \<open>n\<close> bytes; TruncatedInput when fewer remain.\<close>

definition read_fixed :: "nat \<Rightarrow> nat dec" where
  "read_fixed n d =
     (if length (bytes d) < n then Inl TruncatedInput
      else Inr (bytes_nat (Endian d) (take n (bytes d)), d\<lparr>bytes := drop n (bytes d)\<rparr>))"

text \<open>
  Modelled from the spec: a read of a declared number of bytes; MalformedLength when the
  declared length is negative or reaches past the end of the input.
\<close>

definition read_len :: "int \<Rightarrow> (byte list) dec" where
  "read_len n d =
     (if n < 0 \<or> int (length (bytes d)) < n then Inl MalformedLength
      else Inr (take (nat n) (bytes d), d\<lparr>bytes := drop (nat n) (bytes d)\<rparr>))"

text \<open>
  Modelled from the spec: \<open>d.U8()\<close>, the read of one unsigned byte, returned as Go's
  \<open>uint64\<close>.
\<close>

definition U8 :: "uint64 dec" where
  "U8 = bnd (read_fixed 1) (\<lambda>v. ret (of_nat v))"

text \<open>Modelled from the spec: the unsigned 32-bit read.\<close>

definition U32 :: "uint64 dec" where
  "U32 = bnd (read_fixed 4) (\<lambda>v. ret (of_nat v))"

text \<open>
  Modelled from the spec: the signed 32-bit read (two's complement). Signed reads return
  Go's \<open>int64\<close>; the value always fits, so it is an \<open>int\<close> here.
\<close>

definition S32 :: "int dec" where
  "S32 = bnd (read_fixed 4) (\<lambda>v. ret (sint (of_nat v :: 32 word)))"

text \<open>Modelled from the spec: the signed 64-bit read.\<close>

definition S64 :: "int dec" where
  "S64 = bnd (read_fixed 8) (\<lambda>v. ret (sint (of_nat v :: 64 word)))"

text \<open>Modelled from the spec: the read of an IEEE-754 double; a \<open>float64\<close> is kept as its 64 bits.\<close>

definition F64 :: "uint64 dec" where
  "F64 = bnd (read_fixed 8) (\<lambda>v. ret (of_nat v))"

text \<open>
  Modelled from the spec: the value of a finite IEEE-754 double with the given bits
  (sign, 11 exponent bits, 52 fraction bits); \<open>None\<close> for infinities and NaN.
\<close>

definition float64_value :: "uint64 \<Rightarrow> real option" where
  "float64_value w =
     (let s = (if bit w 63 then - 1 else 1 :: real);
          e = unat (drop_bit 52 w) mod 2048;
          m = unat w mod 2 ^ 52
      in if e = 2047 then None
         else if e = 0 then Some (s * real m * 2 powi (- 1074))
         else Some (s * real (2 ^ 52 + m) * 2 powi (int e - 1075)))"

text \<open>
  Modelled from the spec: well-formed UTF-8 (the byte ranges of the Unicode standard:
  no overlong forms, no surrogates, nothing above U+10FFFF).
\<close>

text \<open>Modelled from the spec: a UTF-8 continuation byte.\<close>

definition cont :: "byte \<Rightarrow> bool" where
  "cont b \<longleftrightarrow> 0x80 \<le> b \<and> b \<le> 0xBF"

text \<open>Modelled from the spec: the bytes are well-formed UTF-8.\<close>

fun utf8_valid :: "byte list \<Rightarrow> bool" where
  "utf8_valid [] = True"
| "utf8_valid (b0 # bs) =
     (if b0 \<le> 0x7F then utf8_valid bs
      else if 0xC2 \<le> b0 \<and> b0 \<le> 0xDF then
        (case bs of b1 # r \<Rightarrow> cont b1 \<and> utf8_valid r | _ \<Rightarrow> False)
      else if 0xE0 \<le> b0 \<and> b0 \<le> 0xEF then
        (case bs of b1 # b2 # r \<Rightarrow>
           (if b0 = 0xE0 then 0xA0 \<le> b1 \<and> b1 \<le> 0xBF
            else if b0 = 0xED then 0x80 \<le> b1 \<and> b1 \<le> 0x9F
            else cont b1) \<and> cont b2 \<and> utf8_valid r
         | _ \<Rightarrow> False)
      else if 0xF0 \<le> b0 \<and> b0 \<le> 0xF4 then
        (case bs of b1 # b2 # b3 # r \<Rightarrow>
           (if b0 = 0xF0 then 0x90 \<le> b1 \<and> b1 \<le> 0xBF
            else if b0 = 0xF4 then 0x80 \<le> b1 \<and> b1 \<le> 0x8F
            else cont b1) \<and> cont b2 \<and> cont b3 \<and> utf8_valid r
         | _ \<Rightarrow> False)
      else False)"

text \<open>
  Modelled from the spec: a read of text of a declared length in bytes; MalformedLength as
  for \<open>read_len\<close>, TextDecodeError when the bytes are not valid in the encoding.
\<close>

definition read_text :: "int \<Rightarrow> encoding \<Rightarrow> (byte list) dec" where
  "read_text n enc =
     bnd (read_len n) (\<lambda>bs. case enc of UTF8 \<Rightarrow>
       if utf8_valid bs then ret bs else fail TextDecodeError)"

subsection \<open>The decode package: field emission\<close>

text \<open>Modelled from the spec: the "emit field" capability; a field is appended to the
  fields of the compound value that the handle is building.\<close>

definition emit :: "string \<Rightarrow> Value \<Rightarrow> unit dec" where
  "emit name v d = Inr ((), d\<lparr>children := children d @ [(name, v)]\<rparr>)"

text \<open>
  Modelled from the spec: \<open>d.FieldUintFn(name, fn, m)\<close> emits the number that \<open>fn\<close> reads,
  with the symbol and description that the table \<open>m\<close> has for it, and returns the number.
\<close>

definition FieldUintFn :: "string \<Rightarrow> uint64 dec \<Rightarrow> (uint64 \<times> string \<times> string) list \<Rightarrow> uint64 dec" where
  "FieldUintFn name fn m = bnd fn (\<lambda>v. thn (emit name (Uint v (map_of m v))) (ret v))"

text \<open>
  Modelled from the spec: the \<open>Field...\<close> form of each reading primitive reads the value,
  emits it under the given name and returns it. Mappers that only change how a value is
  presented (\<open>scalar.UintHex\<close>, the time description of \<open>timestamp\<close>) are left out.
\<close>

definition FieldU8 :: "string \<Rightarrow> uint64 dec" where
  "FieldU8 name = bnd U8 (\<lambda>v. thn (emit name (Uint v None)) (ret v))"

text \<open>Modelled from the spec: read and emit an unsigned 32-bit integer.\<close>

definition FieldU32 :: "string \<Rightarrow> uint64 dec" where
  "FieldU32 name = bnd U32 (\<lambda>v. thn (emit name (Uint v None)) (ret v))"

text \<open>Modelled from the spec: read and emit a signed 32-bit integer.\<close>

definition FieldS32 :: "string \<Rightarrow> int dec" where
  "FieldS32 name = bnd S32 (\<lambda>v. thn (emit name (Sint v)) (ret v))"

text \<open>Modelled from the spec: read and emit a signed 64-bit integer.\<close>

definition FieldS64 :: "string \<Rightarrow> int dec" where
  "FieldS64 name = bnd S64 (\<lambda>v. thn (emit name (Sint v)) (ret v))"

text \<open>Modelled from the spec: read and emit a double.\<close>

definition FieldF64 :: "string \<Rightarrow> uint64 dec" where
  "FieldF64 name = bnd F64 (\<lambda>v. thn (emit name (Flt v)) (ret v))"

text \<open>
  Modelled from the spec: read and emit a raw blob of a declared length. The length of
  \<open>FieldRawLen\<close> is in bits; every call of the source passes whole bytes.
\<close>

definition FieldRawLen :: "string \<Rightarrow> int \<Rightarrow> (byte list) dec" where
  "FieldRawLen name nBits =
     bnd (read_len (if nBits < 0 then nBits else nBits div 8)) (\<lambda>bs. thn (emit name (Raw bs)) (ret bs))"

text \<open>Modelled from the spec: read and emit text of a declared length in bytes.\<close>

definition FieldStr :: "string \<Rightarrow> int \<Rightarrow> encoding \<Rightarrow> (byte list) dec" where
  "FieldStr name nBytes enc = bnd (read_text nBytes enc) (\<lambda>s. thn (emit name (Str s)) (ret s))"

text \<open>
  Modelled from the spec: read and emit text whose length is a single unsigned byte before
  the text.
\<close>

definition FieldUTF8ShortString :: "string \<Rightarrow> (byte list) dec" where
  "FieldUTF8ShortString name =
     bnd U8 (\<lambda>n. bnd (read_text (uint n) UTF8) (\<lambda>s. thn (emit name (Str s)) (ret s)))"

text \<open>
  Modelled from the spec: \<open>FieldStruct\<close> and \<open>FieldArray\<close> run the closure on a handle for a new, empty compound
  value at the same cursor and add the finished compound to the parent. The closure's
  result stands for the variables of the enclosing function that a Go closure assigns.
\<close>

definition FieldStruct :: "string \<Rightarrow> 'a dec \<Rightarrow> 'a dec" where
  "FieldStruct name fn d =
     (case fn (d\<lparr>children := []\<rparr>) of
        Inl e \<Rightarrow> Inl e
      | Inr (x, d') \<Rightarrow> Inr (x, d'\<lparr>children := children d @ [(name, Struct (children d'))]\<rparr>))"

text \<open>Modelled from the spec: as \<open>FieldStruct\<close>, for an array.\<close>

definition FieldArray :: "string \<Rightarrow> 'a dec \<Rightarrow> 'a dec" where
  "FieldArray name fn d =
     (case fn (d\<lparr>children := []\<rparr>) of
        Inl e \<Rightarrow> Inl e
      | Inr (x, d') \<Rightarrow> Inr (x, d'\<lparr>children := children d @ [(name, Array (children d'))]\<rparr>))"

text \<open>Modelled from the spec: \<open>n\<close> invocations, one after the other.\<close>

primrec repeat :: "nat \<Rightarrow> unit dec \<Rightarrow> unit dec" where
  "repeat 0 m = ret ()"
| "repeat (Suc n) m = thn m (repeat n m)"

text \<open>
  Modelled from the spec: \<open>d.FieldStructNArray(name, structName, count, fn)\<close> emits an
  array of \<open>count\<close> structs, each built by \<open>fn\<close>; a negative count is a malformed-length
  error.
\<close>

definition FieldStructNArray :: "string \<Rightarrow> string \<Rightarrow> int \<Rightarrow> unit dec \<Rightarrow> unit dec" where
  "FieldStructNArray name structName count fn =
     (if count < 0 then fail MalformedLength
      else FieldArray name (repeat (nat count) (FieldStruct structName fn)))"

subsection \<open>Type tags\<close>

definition TYPE_NULL :: uint64 where "TYPE_NULL = 0x30"
definition TYPE_NONE :: uint64 where "TYPE_NONE = 0x4E"
definition TYPE_FALSE :: uint64 where "TYPE_FALSE = 0x46"
definition TYPE_TRUE :: uint64 where "TYPE_TRUE = 0x54"
definition TYPE_STOPITER :: uint64 where "TYPE_STOPITER = 0x53"
definition TYPE_ELLIPSIS :: uint64 where "TYPE_ELLIPSIS = 0x2E"
definition TYPE_BINARY_FLOAT :: uint64 where "TYPE_BINARY_FLOAT = 0x67"
definition TYPE_BINARY_COMPLEX :: uint64 where "TYPE_BINARY_COMPLEX = 0x79"
definition TYPE_LONG :: uint64 where "TYPE_LONG = 0x6C"
definition TYPE_STRING :: uint64 where "TYPE_STRING = 0x73"
definition TYPE_TUPLE :: uint64 where "TYPE_TUPLE = 0x28"
definition TYPE_LIST :: uint64 where "TYPE_LIST = 0x5B"
definition TYPE_DICT :: uint64 where "TYPE_DICT = 0x7B"
definition TYPE_CODE :: uint64 where "TYPE_CODE = 0x63"
definition TYPE_UNICODE :: uint64 where "TYPE_UNICODE = 0x75"
definition TYPE_UNKNOWN :: uint64 where "TYPE_UNKNOWN = 0x3F"
definition TYPE_SET :: uint64 where "TYPE_SET = 0x3C"
definition TYPE_FROZENSET :: uint64 where "TYPE_FROZENSET = 0x3E"
definition TYPE_SLICE :: uint64 where "TYPE_SLICE = 0x3A"
definition TYPE_INTERNED :: uint64 where "TYPE_INTERNED = 0x74"
definition TYPE_ASCII :: uint64 where "TYPE_ASCII = 0x61"
definition TYPE_ASCII_INTERNED :: uint64 where "TYPE_ASCII_INTERNED = 0x41"
definition TYPE_SHORT_ASCII :: uint64 where "TYPE_SHORT_ASCII = 0x7A"
definition TYPE_SHORT_ASCII_INTERNED :: uint64 where "TYPE_SHORT_ASCII_INTERNED = 0x5A"
definition TYPE_INT :: uint64 where "TYPE_INT = 0x69"
definition TYPE_SMALL_TUPLE :: uint64 where "TYPE_SMALL_TUPLE = 0x29"
definition TYPE_COMPLEX :: uint64 where "TYPE_COMPLEX = 0x78"
definition TYPE_FLOAT :: uint64 where "TYPE_FLOAT = 0x66"
definition TYPE_INT64 :: uint64 where "TYPE_INT64 = 0x49"
definition TYPE_REF :: uint64 where "TYPE_REF = 0x72"

definition FLAG_REF :: uint64 where "FLAG_REF = 0x80"

definition typeMap :: "(uint64 \<times> string \<times> string) list" where
  "typeMap =
    [(TYPE_NULL, ''null'', ''Not a Python object''),
     (TYPE_NONE, ''None'', ''Python None''),
     (TYPE_FALSE, ''False'', ''Python False''),
     (TYPE_TRUE, ''True'', ''Python True''),
     (TYPE_STOPITER, ''StopIteration'', ''StopIteration exception''),
     (TYPE_ELLIPSIS, ''Ellipsis'', ''Ellipsis object''),
     (TYPE_BINARY_FLOAT, ''binary_float'', ''Binary float''),
     (TYPE_BINARY_COMPLEX, ''binary_complex'', ''Binary complex''),
     (TYPE_LONG, ''long'', ''Long integer (arbitrary precision)''),
     (TYPE_STRING, ''string'', ''Byte string''),
     (TYPE_TUPLE, ''tuple'', ''Tuple''),
     (TYPE_LIST, ''list'', ''List''),
     (TYPE_DICT, ''dict'', ''Dictionary''),
     (TYPE_CODE, ''code'', ''Code object''),
     (TYPE_UNICODE, ''unicode'', ''Unicode string''),
     (TYPE_UNKNOWN, ''unknown'', ''Unknown type''),
     (TYPE_SET, ''set'', ''Set''),
     (TYPE_FROZENSET, ''frozenset'', ''Frozen set''),
     (TYPE_SLICE, ''slice'', ''Slice object''),
     (TYPE_INTERNED, ''interned'', ''Interned unicode string''),
     (TYPE_ASCII, ''ascii'', ''ASCII unicode string''),
     (TYPE_ASCII_INTERNED, ''ascii_interned'', ''Interned ASCII unicode string''),
     (TYPE_SHORT_ASCII, ''short_ascii'', ''Short ASCII unicode string''),
     (TYPE_SHORT_ASCII_INTERNED, ''short_ascii_interned'', ''Interned short ASCII unicode string''),
     (TYPE_INT, ''int'', ''Integer''),
     (TYPE_SMALL_TUPLE, ''small_tuple'', ''Small tuple''),
     (TYPE_COMPLEX, ''complex'', ''Complex number''),
     (TYPE_FLOAT, ''float'', ''Float number''),
     (TYPE_INT64, ''int64'', ''64-bit integer''),
     (TYPE_REF, ''ref'', ''Reference to an earlier object'')]"

subsection \<open>The object decoder\<close>

text \<open>
  \<open>read_list\<close> calls \<open>r_object\<close> and \<open>r_object\<close> calls \<open>read_list\<close>; here \<open>read_list\<close>
  takes the decoder it calls as an argument.
\<close>

definition read_list :: "uint64 dec \<Rightarrow> int \<Rightarrow> unit dec" where
  "read_list r_obj n = FieldStructNArray ''items'' ''item'' n (void r_obj)"

text \<open>
  The loop of the \<open>TYPE_DICT\<close> case: \<open>for !end { key; if end { break }; value }\<close>, where
  both closures set \<open>end = ty == TYPE_NULL\<close>. The first argument bounds the number of
  iterations in the model; the Go loop has no bound.
\<close>

primrec dict_loop :: "nat \<Rightarrow> uint64 dec \<Rightarrow> unit dec" where
  "dict_loop 0 r_obj = fail OutOfFuel"
| "dict_loop (Suc n) r_obj =
     bnd (FieldStruct ''key'' (bnd r_obj (\<lambda>ty. ret (ty = TYPE_NULL)))) (\<lambda>end.
       if end then ret ()
       else bnd (FieldStruct ''value'' (bnd r_obj (\<lambda>ty. ret (ty = TYPE_NULL)))) (\<lambda>end.
         if end then ret () else dict_loop n r_obj))"

text \<open>
  \<open>r_object\<close>. The first argument is the recursion budget of the model; the Go function has
  no such argument, and a budget larger than the input is never used up and does not
  change the result (\<open>r_object_enough_fuel\<close>, \<open>r_object_fuel_independent\<close>). The \<open>switch\<close>
  has no \<open>default\<close> case: a tag that matches no case falls through to \<open>return ty\<close>.
\<close>

primrec r_object :: "nat \<Rightarrow> uint64 dec" where
  "r_object 0 = fail OutOfFuel"
| "r_object (Suc fuel) =
     bnd (FieldUintFn ''type'' (bnd U8 (\<lambda>code. ret (code AND NOT FLAG_REF))) typeMap) (\<lambda>ty.
     thn (if ty = TYPE_NULL then ret ()
          else if ty = TYPE_NONE then ret ()
          else if ty = TYPE_STOPITER then ret ()
          else if ty = TYPE_ELLIPSIS then ret ()
          else if ty = TYPE_FALSE then ret ()
          else if ty = TYPE_TRUE then ret ()
          else if ty = TYPE_INT then void (FieldS32 ''value'')
          else if ty = TYPE_INT64 then void (FieldS64 ''value'')
          else if ty = TYPE_LONG then panic ''long not implemented''
          else if ty = TYPE_FLOAT then panic ''float not implemented''
          else if ty = TYPE_BINARY_FLOAT then void (FieldF64 ''value'')
          else if ty = TYPE_COMPLEX then panic ''complex not implemented''
          else if ty = TYPE_BINARY_COMPLEX then
            thn (FieldF64 ''real'') (void (FieldF64 ''imag''))
          else if ty = TYPE_STRING then
            bnd (FieldS32 ''length'') (\<lambda>length. void (FieldRawLen ''value'' (length * 8)))
          else if ty = TYPE_ASCII_INTERNED \<or> ty = TYPE_ASCII then
            bnd (FieldS32 ''length'') (\<lambda>length. void (FieldStr ''value'' length UTF8))
          else if ty = TYPE_SHORT_ASCII_INTERNED then void (FieldUTF8ShortString ''string'')
          else if ty = TYPE_SHORT_ASCII then void (FieldUTF8ShortString ''string'')
          else if ty = TYPE_INTERNED \<or> ty = TYPE_UNICODE then
            bnd (FieldS32 ''length'') (\<lambda>length. void (FieldStr ''value'' length UTF8))
          else if ty = TYPE_SMALL_TUPLE then
            bnd (FieldU8 ''n'') (\<lambda>n. read_list (r_object fuel) (uint n))
          else if ty = TYPE_TUPLE then
            bnd (FieldS32 ''n'') (\<lambda>n. read_list (r_object fuel) n)
          else if ty = TYPE_LIST then
            bnd (FieldS32 ''n'') (\<lambda>n. read_list (r_object fuel) n)
          else if ty = TYPE_DICT then
            FieldArray ''items'' (dict_loop fuel (r_object fuel))
          else if ty = TYPE_SET \<or> ty = TYPE_FROZENSET then
            bnd (FieldS32 ''n'') (\<lambda>n. read_list (r_object fuel) n)
          else if ty = TYPE_CODE then
            thn (FieldS32 ''argcount'')
           (thn (FieldS32 ''posonlyargcount'')
           (thn (FieldS32 ''kwonlyargcount'')
           (thn (FieldS32 ''stacksize'')
           (thn (FieldS32 ''flags'')
           (thn (FieldStruct ''code'' (r_object fuel))
           (thn (FieldStruct ''consts'' (r_object fuel))
           (thn (FieldStruct ''names'' (r_object fuel))
           (thn (FieldStruct ''localsplusnames'' (r_object fuel))
           (thn (FieldStruct ''localspluskinds'' (r_object fuel))
           (thn (FieldStruct ''filename'' (r_object fuel))
           (thn (FieldStruct ''name'' (r_object fuel))
           (thn (FieldStruct ''qualname'' (r_object fuel))
           (thn (FieldU32 ''firstlineno'')
           (thn (FieldStruct ''linetable'' (r_object fuel))
           (void (FieldStruct ''exceptiontable'' (r_object fuel)))))))))))))))))
          else if ty = TYPE_REF then void (FieldU32 ''index'')
          else if ty = TYPE_SLICE then panic ''slice not implemented''
          else ret ())
         (ret ty))"

text \<open>\<open>decodePYC\<close>: the byte order, the four header fields, one object.\<close>

definition decodePYC :: "nat \<Rightarrow> unit dec" where
  "decodePYC fuel =
     thn (\<lambda>d. Inr ((), d\<lparr>Endian := LittleEndian\<rparr>))
    (thn (FieldU32 ''magic'')
    (thn (FieldRawLen ''bit field'' (4 * 8))
    (thn (FieldU32 ''timestamp'')
    (thn (FieldU32 ''length'')
    (void (FieldStruct ''object'' (r_object fuel)))))))"

subsection \<open>Notions used in the statements\<close>

text \<open>
  \<open>decodes k e bs ty obj rest\<close>: on a fresh compound value and the input \<open>bs\<close>, with byte
  order \<open>e\<close>, \<open>r_object\<close> (recursion budget \<open>k\<close>) returns the tag \<open>ty\<close>, has emitted exactly
  the fields \<open>obj\<close> and leaves the input \<open>rest\<close>.
\<close>

definition decodes ::
  "nat \<Rightarrow> Endian \<Rightarrow> byte list \<Rightarrow> uint64 \<Rightarrow> (string \<times> Value) list \<Rightarrow> byte list \<Rightarrow> bool" where
  "decodes k e bs ty obj rest \<longleftrightarrow>
     r_object k \<lparr>Endian = e, bytes = bs, children = []\<rparr> =
       Inr (ty, \<lparr>Endian = e, bytes = rest, children = obj\<rparr>)"

text \<open>A decoder never gives input back (\<open>shrinks\<close>), or always takes some (\<open>consumes\<close>).\<close>

definition shrinks :: "'a dec \<Rightarrow> bool" where
  "shrinks m \<longleftrightarrow> (\<forall>d x d'. m d = Inr (x, d') \<longrightarrow> length (bytes d') \<le> length (bytes d))"

definition consumes :: "'a dec \<Rightarrow> bool" where
  "consumes m \<longleftrightarrow> (\<forall>d x d'. m d = Inr (x, d') \<longrightarrow> length (bytes d') < length (bytes d))"

text \<open>On inputs shorter than \<open>n\<close> bytes the decoder does not use up the recursion budget.\<close>

definition fuel_safe :: "nat \<Rightarrow> 'a dec \<Rightarrow> bool" where
  "fuel_safe n m \<longleftrightarrow> (\<forall>d. length (bytes d) < n \<longrightarrow> m d \<noteq> Inl OutOfFuel)"



text \<open>The value of four bytes read in little-endian order, signed and unsigned.\<close>

definition le_s32 :: "byte list \<Rightarrow> int" where
  "le_s32 bs = sint (of_nat (le_nat bs) :: 32 word)"

definition le_u32 :: "byte list \<Rightarrow> uint64" where
  "le_u32 bs = of_nat (le_nat bs)"

text \<open>
  The List/Sequence Helper in the spec's words: \<open>decode_n\<close> decodes \<open>n\<close> objects by repeated
  invocation of the object decoder, each on a fresh compound value at the cursor the
  previous one left, and returns their fields in order, with the final cursor.
\<close>

primrec decode_n :: "uint64 dec \<Rightarrow> nat \<Rightarrow> D \<Rightarrow> error + ((string \<times> Value) list list \<times> D)" where
  "decode_n r 0 d = Inr ([], d\<lparr>children := []\<rparr>)"
| "decode_n r (Suc n) d =
     (case r (d\<lparr>children := []\<rparr>) of
        Inl e \<Rightarrow> Inl e
      | Inr (ty, d1) \<Rightarrow>
          (case decode_n r n d1 of
             Inl e \<Rightarrow> Inl e
           | Inr (objs, d2) \<Rightarrow> Inr (children d1 # objs, d2)))"

text \<open>The children of an \<open>items\<close> array that holds the given objects.\<close>

definition items_of :: "(string \<times> Value) list list \<Rightarrow> (string \<times> Value) list" where
  "items_of objs = map (\<lambda>obj. (''item'', Struct obj)) objs"

text \<open>
  What a run of a decoder leaves behind: the fields it added to the compound value it was
  given, and the number of bytes it read.
\<close>

definition outcome :: "unit dec \<Rightarrow> D \<Rightarrow> error + ((string \<times> Value) list \<times> nat)" where
  "outcome m d =
     (case m d of
        Inl e \<Rightarrow> Inl e
      | Inr (u, d') \<Rightarrow>
          Inr (drop (length (children d)) (children d'), length (bytes d) - length (bytes d')))"

text \<open>A decoder only adds fields, and what it adds does not depend on the fields already there.\<close>

definition appends :: "'a dec \<Rightarrow> bool" where
  "appends m \<longleftrightarrow>
     (\<forall>d. m d = (case m (d\<lparr>children := []\<rparr>) of
                    Inl e \<Rightarrow> Inl e
                  | Inr (x, d') \<Rightarrow> Inr (x, d'\<lparr>children := children d @ children d'\<rparr>)))"

text \<open>\<open>m'\<close> gives the result of \<open>m\<close> wherever \<open>m\<close> does not use up the recursion budget.\<close>

definition extends :: "'a dec \<Rightarrow> 'a dec \<Rightarrow> bool" where
  "extends m m' \<longleftrightarrow> (\<forall>d. m d \<noteq> Inl OutOfFuel \<longrightarrow> m' d = m d)"

text \<open>
  The \<open>n\<close> little-endian bytes of a number: what the format holds for a fixed-width field
  with that value. Used to state what the reads return for every value.
\<close>

primrec le_bytes :: "nat \<Rightarrow> nat \<Rightarrow> byte list" where
  "le_bytes 0 x = []"
| "le_bytes (Suc n) x = of_nat (x mod 256) # le_bytes n (x div 256)"

text \<open>
  The run ended in a Go \<open>panic\<close>. A panic is not an error value handed to the caller: it
  unwinds the stack, and nothing in pyc.go recovers it.
\<close>

definition panics :: "error + 'a \<Rightarrow> bool" where
  "panics r = (case r of Inl (Panic msg) \<Rightarrow> True | _ \<Rightarrow> False)"

section \<open>Evaluation rules\<close>

lemmas tag_defs =
  TYPE_NULL_def TYPE_NONE_def TYPE_FALSE_def TYPE_TRUE_def TYPE_STOPITER_def
  TYPE_ELLIPSIS_def TYPE_BINARY_FLOAT_def TYPE_BINARY_COMPLEX_def TYPE_LONG_def
  TYPE_STRING_def TYPE_TUPLE_def TYPE_LIST_def TYPE_DICT_def TYPE_CODE_def
  TYPE_UNICODE_def TYPE_UNKNOWN_def TYPE_SET_def TYPE_FROZENSET_def TYPE_SLICE_def
  TYPE_INTERNED_def TYPE_ASCII_def TYPE_ASCII_INTERNED_def TYPE_SHORT_ASCII_def
  TYPE_SHORT_ASCII_INTERNED_def TYPE_INT_def TYPE_SMALL_TUPLE_def TYPE_COMPLEX_def
  TYPE_FLOAT_def TYPE_INT64_def TYPE_REF_def

lemmas monad_defs = ret_def fail_def bnd_def thn_def void_def panic_def

lemmas reader_defs =
  read_fixed_def read_len_def U8_def U32_def S32_def S64_def F64_def bytes_nat_def
  read_text_def

lemmas field_defs =
  emit_def FieldUintFn_def FieldU8_def FieldU32_def FieldS32_def FieldS64_def FieldF64_def
  FieldRawLen_def FieldStr_def FieldUTF8ShortString_def FieldStruct_def FieldArray_def
  FieldStructNArray_def read_list_def

lemmas run_defs = monad_defs reader_defs field_defs tag_defs FLAG_REF_def typeMap_def

lemma bytes_nat_single: "bytes_nat e [b] = unat b"
  by (cases e) (simp_all add: bytes_nat_def)

text \<open>The first step of \<open>r_object\<close>: the tag byte is read, stripped of the flag and emitted.\<close>

lemma read_tag_Cons:
  "bytes d = b # bs \<Longrightarrow>
   bnd (FieldUintFn ''type'' (bnd U8 (\<lambda>code. ret (code AND NOT FLAG_REF))) typeMap) f d =
   f (ucast b AND NOT FLAG_REF)
     (d\<lparr>bytes := bs,
        children := children d @
          [(''type'', Uint (ucast b AND NOT FLAG_REF) (map_of typeMap (ucast b AND NOT FLAG_REF)))]\<rparr>)"
  by (simp add: FieldUintFn_def U8_def read_fixed_def monad_defs emit_def bytes_nat_single)

lemma read_tag_Nil:
  "bytes d = [] \<Longrightarrow>
   bnd (FieldUintFn ''type'' (bnd U8 (\<lambda>code. ret (code AND NOT FLAG_REF))) typeMap) f d =
   Inl TruncatedInput"
  by (simp add: FieldUintFn_def U8_def read_fixed_def monad_defs emit_def bytes_nat_single)

lemma thn_ret_result: "thn m (ret x) d = Inr (y, d') \<Longrightarrow> y = x"
  by (auto simp: monad_defs split: sum.splits)

subsection \<open>The reference flag\<close>

lemma strip_flag_set:
  "ucast (0x80 OR t :: byte) AND NOT (0x80 :: uint64) = ucast t AND NOT 0x80"
  by (rule bit_word_eqI) (auto simp: bit_simps)

lemma strip_pow: "ucast (b :: byte) AND NOT (2 ^ 7 :: uint64) = ucast b AND mask 7"
  apply (rule bit_word_eqI)
  apply (simp only: bit_and_iff bit_not_iff bit_ucast_iff bit_exp_iff bit_mask_iff)
  apply (auto dest: bit_imp_le_length)
  done

lemma strip_eq_mask: "ucast (b :: byte) AND NOT (0x80 :: uint64) = ucast b AND mask 7"
  using strip_pow[of b] by simp

lemma strip_le: "ucast (b :: byte) AND NOT FLAG_REF \<le> 0x7F"
proof -
  have "ucast b AND mask 7 \<le> (mask 7 :: uint64)" by (rule word_and_le1)
  then show ?thesis unfolding FLAG_REF_def strip_eq_mask by (simp add: mask_eq_exp_minus_1)
qed

lemma strip_bit7: "\<not> bit (ucast (b :: byte) AND NOT FLAG_REF) 7"
  unfolding FLAG_REF_def strip_eq_mask by (simp add: bit_simps)

lemma r_object_tag:
  assumes "r_object k d = Inr (ty, d')"
  shows "\<exists>b bs. bytes d = b # bs \<and> ty = ucast b AND NOT FLAG_REF"
proof (cases k)
  case 0
  with assms show ?thesis by (simp add: fail_def)
next
  case (Suc fuel)
  show ?thesis
  proof (cases "bytes d")
    case Nil
    with assms Suc show ?thesis by (simp add: read_tag_Nil)
  next
    case (Cons b bs)
    from assms have "ty = ucast b AND NOT FLAG_REF"
      unfolding Suc r_object.simps read_tag_Cons[OF Cons] by (rule thn_ret_result)
    with Cons show ?thesis by simp
  qed
qed


section \<open>Tags: the reference flag, unknown and unsupported tags\<close>

text \<open>
  C5. A tag byte with the reference flag set decodes exactly as the same byte without the
  flag: the same result (tag, emitted fields, remaining input) or the same failure. The
  flag is removed before the \<open>switch\<close>, whatever the byte is.
\<close>

theorem flag_bit_stripped:
  "r_object k \<lparr>Endian = e, bytes = (0x80 OR t) # payload, children = c\<rparr> =
   r_object k \<lparr>Endian = e, bytes = t # payload, children = c\<rparr>"
proof (cases k)
  case 0
  then show ?thesis by (simp add: fail_def)
next
  case (Suc fuel)
  show ?thesis
    unfolding Suc r_object.simps
    apply (subst read_tag_Cons[where b="0x80 OR t" and bs=payload], simp)
    apply (subst read_tag_Cons[where b=t and bs=payload], simp)
    apply (simp only: FLAG_REF_def strip_flag_set)
    apply simp
    done
qed

text \<open>
  C9. Whenever \<open>r_object\<close> returns, the tag it returns has bit \<open>0x80\<close> clear: it is at most
  \<open>0x7F\<close>. In particular a Null tag byte with the flag set (\<open>0xB0\<close>) is returned as
  \<open>TYPE_NULL\<close>, the value that the dict loop compares with.
\<close>

theorem returned_tag_flag_clear:
  assumes "r_object k d = Inr (ty, d')"
  shows "ty \<le> 0x7F \<and> \<not> bit ty 7 \<and>
         r_object (Suc j) \<lparr>Endian = e, bytes = 0xB0 # rest, children = c\<rparr> =
           Inr (TYPE_NULL, \<lparr>Endian = e, bytes = rest,
                  children = c @ [(''type'', Uint TYPE_NULL (Some (''null'', ''Not a Python object'')))]\<rparr>)"
proof -
  have "r_object (Suc j) \<lparr>Endian = e, bytes = 0xB0 # rest, children = c\<rparr> =
           Inr (TYPE_NULL, \<lparr>Endian = e, bytes = rest,
                  children = c @ [(''type'', Uint TYPE_NULL (Some (''null'', ''Not a Python object'')))]\<rparr>)"
    unfolding r_object.simps
    apply (subst read_tag_Cons[where b="0xB0" and bs=rest], simp)
    apply (simp add: tag_defs FLAG_REF_def typeMap_def monad_defs)
    done
  then show ?thesis
    using r_object_tag[OF assms] strip_le strip_bit7 by auto
qed

theorem returned_tag_flag_clear_witness:
  "r_object 1 \<lparr>Endian = LittleEndian, bytes = [0xB0, 0x4E], children = []\<rparr> =
     Inr (TYPE_NULL, \<lparr>Endian = LittleEndian, bytes = [0x4E],
            children = [(''type'', Uint TYPE_NULL (Some (''null'', ''Not a Python object'')))]\<rparr>)
   \<and> TYPE_NULL \<le> 0x7F \<and> \<not> bit TYPE_NULL 7"
proof -
  have h: "r_object 1 \<lparr>Endian = LittleEndian, bytes = [0xB0, 0x4E], children = []\<rparr> =
     Inr (TYPE_NULL, \<lparr>Endian = LittleEndian, bytes = [0x4E],
            children = [(''type'', Uint TYPE_NULL (Some (''null'', ''Not a Python object'')))]\<rparr>)"
    by (simp add: run_defs)
  show ?thesis using h returned_tag_flag_clear[OF h] by simp
qed




text \<open>
  C3, as the spec states it, fails: on the tag long the code does not produce an error
  value of the decoder. It executes \<open>panic("long not implemented")\<close>, a bare Go panic with
  a string, which pyc.go does not recover.
\<close>

theorem unsupported_panic_counterexample:
  "panics (r_object 1 \<lparr>Endian = LittleEndian, bytes = [0x6C, 1, 0, 0, 0, 5, 0], children = []\<rparr>) \<and>
   r_object 1 \<lparr>Endian = LittleEndian, bytes = [0x6C, 1, 0, 0, 0, 5, 0], children = []\<rparr> =
     Inl (Panic ''long not implemented'')"
  by (simp add: panics_def run_defs)

text \<open>
  C3, amended. When the next tag, with or without the flag, is long, legacy float, legacy
  complex or slice, \<open>r_object\<close> stops with the Go panic whose message names the variant,
  whatever follows the tag byte: no payload is read, nothing is skipped and no value is
  returned. The panic ends the whole decode: a container holding a tuple whose element is
  a (flagged) long yields that panic and no tree.
\<close>

theorem unsupported_variants_fail:
  assumes "bytes d = b # rest"
  shows "(ucast b AND NOT FLAG_REF = TYPE_LONG \<longrightarrow>
            r_object (Suc k) d = Inl (Panic ''long not implemented'')) \<and>
         (ucast b AND NOT FLAG_REF = TYPE_FLOAT \<longrightarrow>
            r_object (Suc k) d = Inl (Panic ''float not implemented'')) \<and>
         (ucast b AND NOT FLAG_REF = TYPE_COMPLEX \<longrightarrow>
            r_object (Suc k) d = Inl (Panic ''complex not implemented'')) \<and>
         (ucast b AND NOT FLAG_REF = TYPE_SLICE \<longrightarrow>
            r_object (Suc k) d = Inl (Panic ''slice not implemented'')) \<and>
         decodePYC (Suc (Suc 0))
           \<lparr>Endian = e,
              bytes = [0, 0, 0, 0, 0, 0, 0, 0, 0, 0, 0, 0, 0, 0, 0, 0, 0x28, 1, 0, 0, 0, 0xEC, 7],
              children = []\<rparr> = Inl (Panic ''long not implemented'')"
proof -
  have "decodePYC (Suc (Suc 0))
           \<lparr>Endian = e,
              bytes = [0, 0, 0, 0, 0, 0, 0, 0, 0, 0, 0, 0, 0, 0, 0, 0, 0x28, 1, 0, 0, 0, 0xEC, 7],
              children = []\<rparr> = Inl (Panic ''long not implemented'')"
    by (simp add: decodePYC_def run_defs)
  then show ?thesis
    unfolding r_object.simps read_tag_Cons[OF assms(1)]
    by (simp add: tag_defs monad_defs)
qed

theorem unsupported_variants_fail_witness:
  "r_object 1 \<lparr>Endian = LittleEndian, bytes = [0x6C, 1, 0, 0, 0, 5, 0], children = []\<rparr> =
     Inl (Panic ''long not implemented'') \<and>
   r_object 1 \<lparr>Endian = LittleEndian, bytes = [0xE6, 3, 0x31, 0x2E, 0x35], children = []\<rparr> =
     Inl (Panic ''float not implemented'') \<and>
   r_object 1 \<lparr>Endian = LittleEndian, bytes = [0x78], children = []\<rparr> =
     Inl (Panic ''complex not implemented'') \<and>
   r_object 1 \<lparr>Endian = LittleEndian, bytes = [0xBA, 0x4E, 0x4E, 0x4E], children = []\<rparr> =
     Inl (Panic ''slice not implemented'')"
  using
    unsupported_variants_fail
      [of "\<lparr>Endian = LittleEndian, bytes = [0x6C, 1, 0, 0, 0, 5, 0], children = []\<rparr>"
          "0x6C" "[1, 0, 0, 0, 5, 0]" 0]
    unsupported_variants_fail
      [of "\<lparr>Endian = LittleEndian, bytes = [0xE6, 3, 0x31, 0x2E, 0x35], children = []\<rparr>"
          "0xE6" "[3, 0x31, 0x2E, 0x35]" 0]
    unsupported_variants_fail
      [of "\<lparr>Endian = LittleEndian, bytes = [0x78], children = []\<rparr>" "0x78" "[]" 0]
    unsupported_variants_fail
      [of "\<lparr>Endian = LittleEndian, bytes = [0xBA, 0x4E, 0x4E, 0x4E], children = []\<rparr>"
          "0xBA" "[0x4E, 0x4E, 0x4E]" 0]
  by (simp add: tag_defs FLAG_REF_def)

section \<open>Scalars\<close>

lemma length_le_bytes [simp]: "length (le_bytes n x) = n"
  by (induction n arbitrary: x) simp_all

lemma unat_byte_mod: "unat (of_nat (x mod 256) :: byte) = x mod 256"
  by (simp add: unat_of_nat)

lemma le_nat_le_bytes: "le_nat (le_bytes n x) = x mod 256 ^ n"
proof (induction n arbitrary: x)
  case 0
  show ?case by simp
next
  case (Suc n)
  have "le_nat (le_bytes (Suc n) x) = x mod 256 + 256 * ((x div 256) mod 256 ^ n)"
    by (simp add: unat_byte_mod Suc)
  also have "\<dots> = x mod (256 * 256 ^ n)"
    by (simp add: mod_mult2_eq)
  finally show ?case by simp
qed

lemma read_fixed_le_bytes:
  "x < 256 ^ n \<Longrightarrow>
   read_fixed n \<lparr>Endian = LittleEndian, bytes = le_bytes n x @ rest, children = c\<rparr> =
     Inr (x, \<lparr>Endian = LittleEndian, bytes = rest, children = c\<rparr>)"
  by (simp add: read_fixed_def bytes_nat_def le_nat_le_bytes)

lemma unat32_bound: "unat (w :: 32 word) < 256 ^ 4"
  using unsigned_less[of w, where ?'a=nat] by simp

lemma unat64_bound: "unat (w :: 64 word) < 256 ^ 8"
  using unsigned_less[of w, where ?'a=nat] by simp

lemma FieldS32_value:
  "FieldS32 name \<lparr>Endian = LittleEndian, bytes = le_bytes 4 (unat (w :: 32 word)) @ rest, children = c\<rparr> =
     Inr (sint w, \<lparr>Endian = LittleEndian, bytes = rest, children = c @ [(name, Sint (sint w))]\<rparr>)"
  by (simp add: FieldS32_def S32_def bnd_def thn_def ret_def emit_def
        read_fixed_le_bytes[OF unat32_bound] del: le_bytes.simps)

lemma FieldS64_value:
  "FieldS64 name \<lparr>Endian = LittleEndian, bytes = le_bytes 8 (unat (w :: 64 word)) @ rest, children = c\<rparr> =
     Inr (sint w, \<lparr>Endian = LittleEndian, bytes = rest, children = c @ [(name, Sint (sint w))]\<rparr>)"
  by (simp add: FieldS64_def S64_def bnd_def thn_def ret_def emit_def
        read_fixed_le_bytes[OF unat64_bound] del: le_bytes.simps)

lemma FieldF64_value:
  "FieldF64 name \<lparr>Endian = LittleEndian, bytes = le_bytes 8 (unat (w :: 64 word)) @ rest, children = c\<rparr> =
     Inr (w, \<lparr>Endian = LittleEndian, bytes = rest, children = c @ [(name, Flt w)]\<rparr>)"
  by (simp add: FieldF64_def F64_def bnd_def thn_def ret_def emit_def
        read_fixed_le_bytes[OF unat64_bound] del: le_bytes.simps)

lemma int_value:
  "r_object (Suc k)
     \<lparr>Endian = LittleEndian, bytes = 0x69 # le_bytes 4 (unat (w :: 32 word)) @ rest, children = c\<rparr> =
   Inr (TYPE_INT, \<lparr>Endian = LittleEndian, bytes = rest,
          children = c @ [(''type'', Uint TYPE_INT (Some (''int'', ''Integer''))),
                          (''value'', Sint (sint w))]\<rparr>)"
  unfolding r_object.simps
  apply (subst read_tag_Cons[where b="0x69" and bs="le_bytes 4 (unat w) @ rest"], simp)
  apply (simp add: tag_defs FLAG_REF_def typeMap_def thn_def bnd_def void_def ret_def
      FieldS32_value del: le_bytes.simps)
  done

lemma int64_value:
  "r_object (Suc k)
     \<lparr>Endian = LittleEndian, bytes = 0x49 # le_bytes 8 (unat (w :: 64 word)) @ rest, children = c\<rparr> =
   Inr (TYPE_INT64, \<lparr>Endian = LittleEndian, bytes = rest,
          children = c @ [(''type'', Uint TYPE_INT64 (Some (''int64'', ''64-bit integer''))),
                          (''value'', Sint (sint w))]\<rparr>)"
  unfolding r_object.simps
  apply (subst read_tag_Cons[where b="0x49" and bs="le_bytes 8 (unat w) @ rest"], simp)
  apply (simp add: tag_defs FLAG_REF_def typeMap_def thn_def bnd_def void_def ret_def
      FieldS64_value del: le_bytes.simps)
  done

lemma binary_float_value:
  "r_object (Suc k)
     \<lparr>Endian = LittleEndian, bytes = 0x67 # le_bytes 8 (unat (w :: 64 word)) @ rest, children = c\<rparr> =
   Inr (TYPE_BINARY_FLOAT, \<lparr>Endian = LittleEndian, bytes = rest,
          children = c @ [(''type'', Uint TYPE_BINARY_FLOAT (Some (''binary_float'', ''Binary float''))),
                          (''value'', Flt w)]\<rparr>)"
  unfolding r_object.simps
  apply (subst read_tag_Cons[where b="0x67" and bs="le_bytes 8 (unat w) @ rest"], simp)
  apply (simp add: tag_defs FLAG_REF_def typeMap_def thn_def bnd_def void_def ret_def
      FieldF64_value del: le_bytes.simps)
  done

lemma binary_complex_value:
  "r_object (Suc k)
     \<lparr>Endian = LittleEndian,
        bytes = 0x79 # le_bytes 8 (unat (re :: 64 word)) @ le_bytes 8 (unat (im :: 64 word)) @ rest,
        children = c\<rparr> =
   Inr (TYPE_BINARY_COMPLEX, \<lparr>Endian = LittleEndian, bytes = rest,
          children = c @ [(''type'', Uint TYPE_BINARY_COMPLEX (Some (''binary_complex'', ''Binary complex''))),
                          (''real'', Flt re), (''imag'', Flt im)]\<rparr>)"
  unfolding r_object.simps
  apply (subst read_tag_Cons[where b="0x79" and bs="le_bytes 8 (unat re) @ le_bytes 8 (unat im) @ rest"], simp)
  apply (simp add: tag_defs FLAG_REF_def typeMap_def thn_def bnd_def void_def ret_def
      FieldF64_value del: le_bytes.simps)
  done

lemma scalar_instances:
  "r_object (Suc k) \<lparr>Endian = LittleEndian, bytes = [0x69, 0x2A, 0, 0, 0] @ rest, children = c\<rparr> =
     Inr (TYPE_INT, \<lparr>Endian = LittleEndian, bytes = rest,
            children = c @ [(''type'', Uint TYPE_INT (Some (''int'', ''Integer''))),
                            (''value'', Sint 42)]\<rparr>) \<and>
   r_object (Suc k) \<lparr>Endian = LittleEndian,
       bytes = [0x67, 0, 0, 0, 0, 0, 0, 0xF8, 0x3F] @ rest, children = c\<rparr> =
     Inr (TYPE_BINARY_FLOAT, \<lparr>Endian = LittleEndian, bytes = rest,
            children = c @ [(''type'', Uint TYPE_BINARY_FLOAT (Some (''binary_float'', ''Binary float''))),
                            (''value'', Flt 0x3FF8000000000000)]\<rparr>) \<and>
   float64_value 0x3FF8000000000000 = Some (3 / 2) \<and>
   decodePYC (Suc k) \<lparr>Endian = e,
       bytes = [m0, m1, m2, m3, f0, f1, f2, f3, t0, t1, t2, t3, l0, l1, l2, l3,
                0x69, 0x2A, 0, 0, 0], children = []\<rparr> =
     Inr ((), \<lparr>Endian = LittleEndian, bytes = [],
            children = [(''magic'', Uint (of_nat (le_nat [m0, m1, m2, m3])) None),
                        (''bit field'', Raw [f0, f1, f2, f3]),
                        (''timestamp'', Uint (of_nat (le_nat [t0, t1, t2, t3])) None),
                        (''length'', Uint (of_nat (le_nat [l0, l1, l2, l3])) None),
                        (''object'', Struct
                           [(''type'', Uint TYPE_INT (Some (''int'', ''Integer''))),
                            (''value'', Sint 42)])]\<rparr>)"
proof (intro conjI)
  show "float64_value 0x3FF8000000000000 = Some (3 / 2)"
    by (simp add: float64_value_def Let_def bit_simps drop_bit_eq_div)
qed (simp_all add: decodePYC_def run_defs)

text \<open>
  C8. With the little-endian byte order that \<open>decodePYC\<close> sets, each supported scalar tag
  decodes the fixed-width little-endian bytes of a value to exactly that value, for every
  value, and reads nothing else: tag int and the four bytes of a 32-bit word \<open>w\<close> give its
  signed value \<open>sint w\<close>; tag int64 and the eight bytes of a 64-bit word give its signed
  value; tag binary_float and the eight bytes of a 64-bit pattern give the double with
  those bits; tag binary_complex gives the two doubles \<open>real\<close> and \<open>imag\<close>, in this order.
  In particular tag int followed by \<open>2A 00 00 00\<close> decodes to the field \<open>value = 42\<close>, and
  tag binary_float followed by \<open>00 00 00 00 00 00 F8 3F\<close> decodes to the double with bits
  \<open>0x3FF8000000000000\<close>, whose value is 1.5. \<open>decodePYC\<close> itself, entered with any byte
  order, decodes a 16-byte header followed by that int object to 42.
\<close>

theorem scalar_values:
  "r_object (Suc k) \<lparr>Endian = LittleEndian, bytes = [0x69, 0x2A, 0, 0, 0] @ rest, children = c\<rparr> =
     Inr (TYPE_INT, \<lparr>Endian = LittleEndian, bytes = rest,
            children = c @ [(''type'', Uint TYPE_INT (Some (''int'', ''Integer''))),
                            (''value'', Sint 42)]\<rparr>) \<and>
   r_object (Suc k) \<lparr>Endian = LittleEndian,
       bytes = [0x67, 0, 0, 0, 0, 0, 0, 0xF8, 0x3F] @ rest, children = c\<rparr> =
     Inr (TYPE_BINARY_FLOAT, \<lparr>Endian = LittleEndian, bytes = rest,
            children = c @ [(''type'', Uint TYPE_BINARY_FLOAT (Some (''binary_float'', ''Binary float''))),
                            (''value'', Flt 0x3FF8000000000000)]\<rparr>) \<and>
   float64_value 0x3FF8000000000000 = Some (3 / 2) \<and>
   decodePYC (Suc k) \<lparr>Endian = e,
       bytes = [m0, m1, m2, m3, f0, f1, f2, f3, t0, t1, t2, t3, l0, l1, l2, l3,
                0x69, 0x2A, 0, 0, 0], children = []\<rparr> =
     Inr ((), \<lparr>Endian = LittleEndian, bytes = [],
            children = [(''magic'', Uint (of_nat (le_nat [m0, m1, m2, m3])) None),
                        (''bit field'', Raw [f0, f1, f2, f3]),
                        (''timestamp'', Uint (of_nat (le_nat [t0, t1, t2, t3])) None),
                        (''length'', Uint (of_nat (le_nat [l0, l1, l2, l3])) None),
                        (''object'', Struct
                           [(''type'', Uint TYPE_INT (Some (''int'', ''Integer''))),
                            (''value'', Sint 42)])]\<rparr>) \<and>
   r_object (Suc k)
     \<lparr>Endian = LittleEndian, bytes = 0x69 # le_bytes 4 (unat (w :: 32 word)) @ rest,
        children = c\<rparr> =
     Inr (TYPE_INT, \<lparr>Endian = LittleEndian, bytes = rest,
            children = c @ [(''type'', Uint TYPE_INT (Some (''int'', ''Integer''))),
                            (''value'', Sint (sint w))]\<rparr>) \<and>
   r_object (Suc k)
     \<lparr>Endian = LittleEndian, bytes = 0x49 # le_bytes 8 (unat (v :: 64 word)) @ rest,
        children = c\<rparr> =
     Inr (TYPE_INT64, \<lparr>Endian = LittleEndian, bytes = rest,
            children = c @ [(''type'', Uint TYPE_INT64 (Some (''int64'', ''64-bit integer''))),
                            (''value'', Sint (sint v))]\<rparr>) \<and>
   r_object (Suc k)
     \<lparr>Endian = LittleEndian, bytes = 0x67 # le_bytes 8 (unat (x :: 64 word)) @ rest,
        children = c\<rparr> =
     Inr (TYPE_BINARY_FLOAT, \<lparr>Endian = LittleEndian, bytes = rest,
            children = c @ [(''type'', Uint TYPE_BINARY_FLOAT (Some (''binary_float'', ''Binary float''))),
                            (''value'', Flt x)]\<rparr>) \<and>
   r_object (Suc k)
     \<lparr>Endian = LittleEndian,
        bytes = 0x79 # le_bytes 8 (unat (re :: 64 word)) @ le_bytes 8 (unat (im :: 64 word)) @ rest,
        children = c\<rparr> =
     Inr (TYPE_BINARY_COMPLEX, \<lparr>Endian = LittleEndian, bytes = rest,
            children = c @ [(''type'', Uint TYPE_BINARY_COMPLEX (Some (''binary_complex'', ''Binary complex''))),
                            (''real'', Flt re), (''imag'', Flt im)]\<rparr>)"
  by (intro conjI int_value int64_value binary_float_value binary_complex_value
        scalar_instances[THEN conjunct1]
        scalar_instances[THEN conjunct2, THEN conjunct1]
        scalar_instances[THEN conjunct2, THEN conjunct2, THEN conjunct1]
        scalar_instances[THEN conjunct2, THEN conjunct2, THEN conjunct2])

section \<open>The recursion budget\<close>

text \<open>
  Every call of \<open>r_object\<close> reads its tag byte before it calls itself, and no decoder gives
  input back. So a recursion budget larger than the number of input bytes is never used
  up: \<open>OutOfFuel\<close> is not a result of the program.
\<close>

named_theorems shrinks_intros

lemma consumes_shrinks: "consumes m \<Longrightarrow> shrinks m"
  by (fastforce simp: consumes_def shrinks_def)

lemma shrinks_ret [shrinks_intros]: "shrinks (ret x)"
  by (simp add: shrinks_def ret_def)

lemma shrinks_fail [shrinks_intros]: "shrinks (fail e)"
  by (simp add: shrinks_def fail_def)

lemma shrinks_panic [shrinks_intros]: "shrinks (panic e)"
  by (simp add: panic_def shrinks_fail)

lemma shrinks_bnd [shrinks_intros]: "shrinks m \<Longrightarrow> (\<And>x. shrinks (f x)) \<Longrightarrow> shrinks (bnd m f)"
  unfolding shrinks_def bnd_def
  by (fastforce split: sum.splits)

lemma shrinks_thn [shrinks_intros]: "shrinks m \<Longrightarrow> shrinks m' \<Longrightarrow> shrinks (thn m m')"
  by (simp add: thn_def shrinks_bnd)

lemma shrinks_void [shrinks_intros]: "shrinks m \<Longrightarrow> shrinks (void m)"
  by (simp add: void_def shrinks_bnd shrinks_ret)

lemma shrinks_if [shrinks_intros]: "shrinks a \<Longrightarrow> shrinks b \<Longrightarrow> shrinks (if c then a else b)"
  by simp

lemma shrinks_read_fixed [shrinks_intros]: "shrinks (read_fixed n)"
  by (auto simp: shrinks_def read_fixed_def split: if_splits)

lemma shrinks_read_len [shrinks_intros]: "shrinks (read_len n)"
  by (auto simp: shrinks_def read_len_def split: if_splits)

lemma shrinks_emit [shrinks_intros]: "shrinks (emit name v)"
  by (auto simp: shrinks_def emit_def)

lemma shrinks_read_text [shrinks_intros]: "shrinks (read_text n enc)"
  unfolding read_text_def
  by (intro shrinks_intros) (auto split: encoding.splits intro: shrinks_intros)

lemma shrinks_FieldStruct [shrinks_intros]: "shrinks fn \<Longrightarrow> shrinks (FieldStruct name fn)"
  unfolding shrinks_def FieldStruct_def
  by (fastforce split: sum.splits)

lemma shrinks_FieldArray [shrinks_intros]: "shrinks fn \<Longrightarrow> shrinks (FieldArray name fn)"
  unfolding shrinks_def FieldArray_def
  by (fastforce split: sum.splits)

lemma shrinks_repeat [shrinks_intros]: "shrinks m \<Longrightarrow> shrinks (repeat n m)"
  by (induction n) (simp_all add: shrinks_intros)

lemma shrinks_prims [shrinks_intros]:
  "shrinks U8" "shrinks U32" "shrinks S32" "shrinks S64" "shrinks F64"
  unfolding U8_def U32_def S32_def S64_def F64_def
  by (intro shrinks_intros)+

lemma shrinks_fields [shrinks_intros]:
  "shrinks (FieldU8 name)" "shrinks (FieldU32 name)" "shrinks (FieldS32 name)"
  "shrinks (FieldS64 name)" "shrinks (FieldF64 name)" "shrinks (FieldRawLen name n)"
  "shrinks (FieldStr name n enc)" "shrinks (FieldUTF8ShortString name)"
  unfolding FieldU8_def FieldU32_def FieldS32_def FieldS64_def FieldF64_def FieldRawLen_def
    FieldStr_def FieldUTF8ShortString_def
  by (intro shrinks_intros)+

lemma shrinks_FieldUintFn [shrinks_intros]: "shrinks fn \<Longrightarrow> shrinks (FieldUintFn name fn m)"
  unfolding FieldUintFn_def by (intro shrinks_intros)

lemma shrinks_FieldStructNArray [shrinks_intros]:
  "shrinks fn \<Longrightarrow> shrinks (FieldStructNArray name sn n fn)"
  unfolding FieldStructNArray_def by (intro shrinks_intros)

lemma shrinks_read_list [shrinks_intros]: "shrinks r \<Longrightarrow> shrinks (read_list r n)"
  unfolding read_list_def by (intro shrinks_intros)

lemma shrinks_dict_loop [shrinks_intros]: "shrinks r \<Longrightarrow> shrinks (dict_loop n r)"
  by (induction n) (simp_all add: shrinks_intros)

lemma consumes_bnd: "consumes m \<Longrightarrow> (\<And>x. shrinks (f x)) \<Longrightarrow> consumes (bnd m f)"
  unfolding shrinks_def consumes_def bnd_def
  by (fastforce split: sum.splits)

lemma consumes_U8: "consumes U8"
  by (auto simp: consumes_def U8_def read_fixed_def monad_defs split: if_splits)

lemma consumes_read_tag:
  "consumes (FieldUintFn name (bnd U8 (\<lambda>code. ret (g code))) m)"
  unfolding FieldUintFn_def
  by (intro consumes_bnd consumes_U8 shrinks_intros)

lemma r_object_consumes: "consumes (r_object k)"
proof (induction k)
  case 0
  show ?case by (simp add: consumes_def fail_def)
next
  case (Suc k)
  have s: "shrinks (r_object k)" using Suc by (rule consumes_shrinks)
  show ?case
    unfolding r_object.simps
    by (rule consumes_bnd, rule consumes_read_tag) (intro shrinks_intros s)
qed


named_theorems fuel_intros

lemma fuel_safe_ret [fuel_intros]: "fuel_safe n (ret x)"
  by (simp add: fuel_safe_def ret_def)

lemma fuel_safe_panic [fuel_intros]: "fuel_safe n (panic msg)"
  by (simp add: fuel_safe_def panic_def fail_def)

lemma fuel_safe_bnd [fuel_intros]:
  "fuel_safe n m \<Longrightarrow> shrinks m \<Longrightarrow> (\<And>x. fuel_safe n (f x)) \<Longrightarrow> fuel_safe n (bnd m f)"
  unfolding fuel_safe_def shrinks_def bnd_def
  by (fastforce split: sum.splits)

lemma fuel_safe_thn [fuel_intros]:
  "fuel_safe n m \<Longrightarrow> shrinks m \<Longrightarrow> fuel_safe n m' \<Longrightarrow> fuel_safe n (thn m m')"
  by (simp add: thn_def fuel_safe_bnd)

lemma fuel_safe_void [fuel_intros]: "fuel_safe n m \<Longrightarrow> shrinks m \<Longrightarrow> fuel_safe n (void m)"
  by (simp add: void_def fuel_safe_bnd fuel_safe_ret)

lemma fuel_safe_if [fuel_intros]:
  "fuel_safe n a \<Longrightarrow> fuel_safe n b \<Longrightarrow> fuel_safe n (if c then a else b)"
  by simp

lemma fuel_safe_readers [fuel_intros]:
  "fuel_safe n U8" "fuel_safe n (FieldU8 name)" "fuel_safe n (FieldU32 name)"
  "fuel_safe n (FieldS32 name)" "fuel_safe n (FieldS64 name)" "fuel_safe n (FieldF64 name)"
  "fuel_safe n (FieldRawLen name l)" "fuel_safe n (FieldStr name l enc)"
  "fuel_safe n (FieldUTF8ShortString name)"
  by (auto simp: fuel_safe_def monad_defs reader_defs field_defs
           split: if_splits sum.splits encoding.splits Endian.splits)

lemma fuel_safe_FieldStruct [fuel_intros]:
  "fuel_safe n fn \<Longrightarrow> fuel_safe n (FieldStruct name fn)"
  unfolding fuel_safe_def FieldStruct_def
  by (auto split: sum.splits)

lemma fuel_safe_FieldArray [fuel_intros]:
  "fuel_safe n fn \<Longrightarrow> fuel_safe n (FieldArray name fn)"
  unfolding fuel_safe_def FieldArray_def
  by (auto split: sum.splits)

lemma fuel_safe_repeat [fuel_intros]:
  "fuel_safe n m \<Longrightarrow> shrinks m \<Longrightarrow> fuel_safe n (repeat j m)"
  by (induction j) (simp_all add: fuel_intros shrinks_intros)

lemma fuel_safe_fail [fuel_intros]: "e \<noteq> OutOfFuel \<Longrightarrow> fuel_safe n (fail e)"
  by (simp add: fuel_safe_def fail_def)

lemma fuel_safe_read_list [fuel_intros]:
  "fuel_safe n r \<Longrightarrow> shrinks r \<Longrightarrow> fuel_safe n (read_list r c)"
  unfolding read_list_def FieldStructNArray_def
  by (intro fuel_intros shrinks_intros) simp_all

lemma fuel_safe_dict_loop:
  "fuel_safe k r \<Longrightarrow> consumes r \<Longrightarrow> j \<le> k \<Longrightarrow> fuel_safe j (dict_loop j r)"
proof (induction j)
  case 0
  show ?case by (simp add: fuel_safe_def)
next
  case (Suc j)
  let ?key = "FieldStruct ''key'' (bnd r (\<lambda>ty. ret (ty = TYPE_NULL)))"
  let ?val = "FieldStruct ''value'' (bnd r (\<lambda>ty. ret (ty = TYPE_NULL)))"
  have ih: "fuel_safe j (dict_loop j r)" using Suc by simp
  have sr: "shrinks r" using Suc.prems(2) by (rule consumes_shrinks)
  have ck: "consumes ?key" "consumes ?val"
    using Suc.prems(2) unfolding consumes_def FieldStruct_def bnd_def ret_def
    by (fastforce split: sum.splits)+
  have fk: "fuel_safe k ?key" "fuel_safe k ?val"
    by (intro fuel_intros shrinks_intros Suc.prems(1) sr)+
  show ?case
    unfolding fuel_safe_def
  proof (intro allI impI)
    fix d :: D assume d: "length (bytes d) < Suc j"
    have 1: "?key d \<noteq> Inl OutOfFuel"
      using fk(1) d Suc.prems(3) unfolding fuel_safe_def by simp
    show "dict_loop (Suc j) r d \<noteq> Inl OutOfFuel"
    proof (cases "?key d")
      case (Inl e)
      with 1 show ?thesis by (simp add: bnd_def[of ?key])
    next
      case (Inr p)
      obtain e1 d1 where p: "p = (e1, d1)" by (cases p)
      have l1: "length (bytes d1) < j" using ck(1) Inr p d unfolding consumes_def by fastforce
      have 2: "?val d1 \<noteq> Inl OutOfFuel"
        using fk(2) l1 Suc.prems(3) unfolding fuel_safe_def by simp
      show ?thesis
      proof (cases "?val d1")
        case (Inl e)
        with 2 Inr p show ?thesis by (simp add: bnd_def[of ?key] bnd_def[of ?val] ret_def)
      next
        case Inr2: (Inr q)
        obtain e2 d2 where q: "q = (e2, d2)" by (cases q)
        have l2: "length (bytes d2) < j" using ck(2) Inr2 q l1 unfolding consumes_def by fastforce
        have "dict_loop j r d2 \<noteq> Inl OutOfFuel" using ih l2 unfolding fuel_safe_def by simp
        with Inr p Inr2 q show ?thesis by (simp add: bnd_def[of ?key] bnd_def[of ?val] ret_def)
      qed
    qed
  qed
qed

lemma fuel_safe_read_tag:
  "fuel_safe n (FieldUintFn name (bnd U8 (\<lambda>code. ret (g code))) m)"
  unfolding FieldUintFn_def
  by (auto simp: fuel_safe_def monad_defs reader_defs field_defs
           split: if_splits sum.splits Endian.splits)

lemma fuel_safe_consumes_bnd:
  "consumes m \<Longrightarrow> fuel_safe (Suc n) m \<Longrightarrow> (\<And>x. fuel_safe n (f x)) \<Longrightarrow> fuel_safe (Suc n) (bnd m f)"
  unfolding fuel_safe_def consumes_def bnd_def
  by (fastforce split: sum.splits)

lemma r_object_fuel_safe: "fuel_safe k (r_object k)"
proof (induction k)
  case 0
  show ?case by (simp add: fuel_safe_def)
next
  case (Suc k)
  have c: "consumes (r_object k)" by (rule r_object_consumes)
  have s: "shrinks (r_object k)" using c by (rule consumes_shrinks)
  have dl: "fuel_safe k (dict_loop k (r_object k))"
    using Suc c by (rule fuel_safe_dict_loop) simp
  show ?case
    unfolding r_object.simps
    by (rule fuel_safe_consumes_bnd, rule consumes_read_tag, rule fuel_safe_read_tag)
       (intro fuel_intros shrinks_intros s Suc dl)
qed

lemma r_object_enough_fuel: "length (bytes d) < k \<Longrightarrow> r_object k d \<noteq> Inl OutOfFuel"
  using r_object_fuel_safe[of k] unfolding fuel_safe_def by simp

text \<open>A larger budget does not change a result.\<close>

named_theorems extends_intros

lemma extends_refl [extends_intros]: "extends m m"
  by (simp add: extends_def)

lemma extends_bnd [extends_intros]:
  "extends m m' \<Longrightarrow> (\<And>x. extends (f x) (f' x)) \<Longrightarrow> extends (bnd m f) (bnd m' f')"
  unfolding extends_def bnd_def
  by (auto split: sum.splits)

lemma extends_thn [extends_intros]:
  "extends m m' \<Longrightarrow> extends n n' \<Longrightarrow> extends (thn m n) (thn m' n')"
  by (simp add: thn_def extends_bnd)

lemma extends_void [extends_intros]: "extends m m' \<Longrightarrow> extends (void m) (void m')"
  by (simp add: void_def extends_bnd extends_refl)

lemma extends_if [extends_intros]:
  "extends a a' \<Longrightarrow> extends b b' \<Longrightarrow> extends (if c then a else b) (if c then a' else b')"
  by simp

lemma extends_FieldStruct [extends_intros]:
  "extends fn fn' \<Longrightarrow> extends (FieldStruct name fn) (FieldStruct name fn')"
  unfolding extends_def FieldStruct_def
  by (auto split: sum.splits)

lemma extends_FieldArray [extends_intros]:
  "extends fn fn' \<Longrightarrow> extends (FieldArray name fn) (FieldArray name fn')"
  unfolding extends_def FieldArray_def
  by (auto split: sum.splits)

lemma extends_repeat [extends_intros]:
  "extends m m' \<Longrightarrow> extends (repeat n m) (repeat n m')"
  by (induction n) (simp_all add: extends_intros)

lemma extends_read_list [extends_intros]:
  "extends r r' \<Longrightarrow> extends (read_list r n) (read_list r' n)"
  unfolding read_list_def FieldStructNArray_def
  by (intro extends_intros)

lemma extends_dict_loop [extends_intros]:
  "extends r r' \<Longrightarrow> extends (dict_loop n r) (dict_loop (Suc n) r')"
proof (induction n)
  case 0
  show ?case by (simp add: extends_def fail_def)
next
  case (Suc n)
  have ih: "extends (dict_loop n r) (dict_loop (Suc n) r')" using Suc by simp
  show ?case
    apply (subst dict_loop.simps(2)[of "Suc n"])
    apply (subst dict_loop.simps(2)[of n])
    apply (intro extends_intros ih Suc.prems)
    done
qed

lemma r_object_extends: "extends (r_object k) (r_object (Suc k))"
proof (induction k)
  case 0
  show ?case by (simp add: extends_def fail_def)
next
  case (Suc k)
  show ?case
    apply (subst r_object.simps(2)[of "Suc k"])
    apply (subst r_object.simps(2)[of k])
    apply (intro extends_intros Suc)
    done
qed

lemma r_object_more_fuel:
  "r_object k d \<noteq> Inl OutOfFuel \<Longrightarrow> r_object (k + j) d = r_object k d"
proof (induction j)
  case 0
  show ?case by simp
next
  case (Suc j)
  then have "r_object (k + j) d \<noteq> Inl OutOfFuel" by simp
  then have "r_object (Suc (k + j)) d = r_object (k + j) d"
    using r_object_extends[of "k + j"] unfolding extends_def by blast
  with Suc show ?case by simp
qed

lemma r_object_fuel_independent:
  assumes "length (bytes d) < k1" and "length (bytes d) < k2"
  shows "r_object k1 d = r_object k2 d"
proof -
  have 1: "r_object k1 d \<noteq> Inl OutOfFuel" and 2: "r_object k2 d \<noteq> Inl OutOfFuel"
    using assms by (simp_all add: r_object_enough_fuel)
  show ?thesis
  proof (cases "k1 \<le> k2")
    case True
    then show ?thesis using r_object_more_fuel[OF 1, of "k2 - k1"] by simp
  next
    case False
    then show ?thesis using r_object_more_fuel[OF 2, of "k1 - k2"] by simp
  qed
qed

lemma shrinks_set_Endian [shrinks_intros]: "shrinks (\<lambda>d. Inr (x, d\<lparr>Endian := e\<rparr>))"
  by (simp add: shrinks_def)

lemma fuel_safe_set_Endian [fuel_intros]: "fuel_safe n (\<lambda>d. Inr (x, d\<lparr>Endian := e\<rparr>))"
  by (simp add: fuel_safe_def)

lemma decodePYC_fuel_safe: "fuel_safe k (decodePYC k)"
  unfolding decodePYC_def
  by (intro fuel_intros shrinks_intros r_object_fuel_safe consumes_shrinks[OF r_object_consumes])

lemma decodePYC_extends: "extends (decodePYC k) (decodePYC (Suc k))"
  unfolding decodePYC_def
  by (intro extends_intros r_object_extends)

lemma decodePYC_more_fuel:
  "decodePYC k d \<noteq> Inl OutOfFuel \<Longrightarrow> decodePYC (k + j) d = decodePYC k d"
proof (induction j)
  case 0
  show ?case by simp
next
  case (Suc j)
  then have "decodePYC (k + j) d \<noteq> Inl OutOfFuel" by simp
  then have "decodePYC (Suc (k + j)) d = decodePYC (k + j) d"
    using decodePYC_extends[of "k + j"] unfolding extends_def by blast
  with Suc show ?case by simp
qed

lemma decodePYC_fuel_independent:
  assumes "length (bytes d) < k1" and "length (bytes d) < k2"
  shows "decodePYC k1 d = decodePYC k2 d \<and> decodePYC k1 d \<noteq> Inl OutOfFuel"
proof -
  have 1: "decodePYC k1 d \<noteq> Inl OutOfFuel" and 2: "decodePYC k2 d \<noteq> Inl OutOfFuel"
    using assms decodePYC_fuel_safe unfolding fuel_safe_def by blast+
  show ?thesis
  proof (cases "k1 \<le> k2")
    case True
    then show ?thesis using 1 decodePYC_more_fuel[OF 1, of "k2 - k1"] by simp
  next
    case False
    then show ?thesis using 1 decodePYC_more_fuel[OF 2, of "k1 - k2"] by simp
  qed
qed

section \<open>Nesting depth\<close>







section \<open>Dicts\<close>















section \<open>Code objects\<close>

lemma FieldS32_le:
  "FieldS32 name \<lparr>Endian = LittleEndian, bytes = b0 # b1 # b2 # b3 # bs, children = c\<rparr> =
     Inr (le_s32 [b0, b1, b2, b3],
          \<lparr>Endian = LittleEndian, bytes = bs, children = c @ [(name, Sint (le_s32 [b0, b1, b2, b3]))]\<rparr>)"
  by (simp add: FieldS32_def S32_def read_fixed_def bytes_nat_def monad_defs emit_def le_s32_def)

lemma FieldU32_le:
  "FieldU32 name \<lparr>Endian = LittleEndian, bytes = b0 # b1 # b2 # b3 # bs, children = c\<rparr> =
     Inr (le_u32 [b0, b1, b2, b3],
          \<lparr>Endian = LittleEndian, bytes = bs, children = c @ [(name, Uint (le_u32 [b0, b1, b2, b3]) None)]\<rparr>)"
  by (simp add: FieldU32_def U32_def read_fixed_def bytes_nat_def monad_defs emit_def le_u32_def)

lemma FieldStruct_decodes:
  "decodes k e bs ty obj rest \<Longrightarrow>
   FieldStruct name (r_object k) \<lparr>Endian = e, bytes = bs, children = c\<rparr> =
     Inr (ty, \<lparr>Endian = e, bytes = rest, children = c @ [(name, Struct obj)]\<rparr>)"
  by (simp add: FieldStruct_def decodes_def)

lemma null_decodes:
  "decodes (Suc k) e (0x30 # rest) TYPE_NULL
     [(''type'', Uint TYPE_NULL (Some (''null'', ''Not a Python object'')))] rest"
  unfolding decodes_def r_object.simps
  apply (subst read_tag_Cons[where b="0x30" and bs=rest], simp)
  apply (simp add: tag_defs FLAG_REF_def typeMap_def monad_defs)
  done

text \<open>
  C6. A code object is the tag \<open>c\<close> followed by, in this order: argcount, posonlyargcount,
  kwonlyargcount, stacksize and flags, each four bytes read as a signed 32-bit integer;
  then code, consts, names, localsplusnames, localspluskinds, filename, name and qualname,
  each one object decoded by \<open>r_object\<close>; then firstlineno, four bytes read as an unsigned
  32-bit integer; then linetable and exceptiontable, each one object. Exactly these 16
  fields are emitted after the \<open>type\<close> field, in this order, and each object starts where
  the field before it ended.
\<close>

theorem code_record_layout:
  assumes "decodes k LittleEndian bs1 t1 c_code bs2"
    and "decodes k LittleEndian bs2 t2 c_consts bs3"
    and "decodes k LittleEndian bs3 t3 c_names bs4"
    and "decodes k LittleEndian bs4 t4 c_localsplusnames bs5"
    and "decodes k LittleEndian bs5 t5 c_localspluskinds bs6"
    and "decodes k LittleEndian bs6 t6 c_filename bs7"
    and "decodes k LittleEndian bs7 t7 c_name bs8"
    and "decodes k LittleEndian bs8 t8 c_qualname (l0 # l1 # l2 # l3 # bs9)"
    and "decodes k LittleEndian bs9 t9 c_linetable bs10"
    and "decodes k LittleEndian bs10 t10 c_exceptiontable bs11"
  shows "decodes (Suc k) LittleEndian
           (0x63 # a0 # a1 # a2 # a3 # p0 # p1 # p2 # p3 # w0 # w1 # w2 # w3 #
            s0 # s1 # s2 # s3 # f0 # f1 # f2 # f3 # bs1)
           TYPE_CODE
           [(''type'', Uint TYPE_CODE (Some (''code'', ''Code object''))),
            (''argcount'', Sint (le_s32 [a0, a1, a2, a3])),
            (''posonlyargcount'', Sint (le_s32 [p0, p1, p2, p3])),
            (''kwonlyargcount'', Sint (le_s32 [w0, w1, w2, w3])),
            (''stacksize'', Sint (le_s32 [s0, s1, s2, s3])),
            (''flags'', Sint (le_s32 [f0, f1, f2, f3])),
            (''code'', Struct c_code),
            (''consts'', Struct c_consts),
            (''names'', Struct c_names),
            (''localsplusnames'', Struct c_localsplusnames),
            (''localspluskinds'', Struct c_localspluskinds),
            (''filename'', Struct c_filename),
            (''name'', Struct c_name),
            (''qualname'', Struct c_qualname),
            (''firstlineno'', Uint (le_u32 [l0, l1, l2, l3]) None),
            (''linetable'', Struct c_linetable),
            (''exceptiontable'', Struct c_exceptiontable)]
           bs11"
  unfolding decodes_def r_object.simps
  apply (subst read_tag_Cons[where b="0x63" and bs="a0 # a1 # a2 # a3 # p0 # p1 # p2 # p3 # w0 # w1 # w2 # w3 #
            s0 # s1 # s2 # s3 # f0 # f1 # f2 # f3 # bs1"], simp)
  apply (simp add: tag_defs FLAG_REF_def typeMap_def)
  apply (simp add: thn_def bnd_def void_def ret_def FieldS32_le FieldU32_le
      FieldStruct_decodes[OF assms(1)] FieldStruct_decodes[OF assms(2)]
      FieldStruct_decodes[OF assms(3)] FieldStruct_decodes[OF assms(4)]
      FieldStruct_decodes[OF assms(5)] FieldStruct_decodes[OF assms(6)]
      FieldStruct_decodes[OF assms(7)] FieldStruct_decodes[OF assms(8)]
      FieldStruct_decodes[OF assms(9)] FieldStruct_decodes[OF assms(10)])
  done


theorem code_record_layout_witness:
  "decodes (Suc (Suc 0)) LittleEndian
     [0x63, 1, 0, 0, 0, 0, 0, 0, 0, 0, 0, 0, 0, 2, 0, 0, 0, 0x43, 0, 0, 0,
      0x30, 0x30, 0x30, 0x30, 0x30, 0x30, 0x30, 0x30, 7, 0, 0, 0, 0x30, 0x30]
     TYPE_CODE
     [(''type'', Uint TYPE_CODE (Some (''code'', ''Code object''))),
      (''argcount'', Sint 1),
      (''posonlyargcount'', Sint 0),
      (''kwonlyargcount'', Sint 0),
      (''stacksize'', Sint 2),
      (''flags'', Sint 67),
      (''code'', Struct [(''type'', Uint TYPE_NULL (Some (''null'', ''Not a Python object'')))]),
      (''consts'', Struct [(''type'', Uint TYPE_NULL (Some (''null'', ''Not a Python object'')))]),
      (''names'', Struct [(''type'', Uint TYPE_NULL (Some (''null'', ''Not a Python object'')))]),
      (''localsplusnames'', Struct [(''type'', Uint TYPE_NULL (Some (''null'', ''Not a Python object'')))]),
      (''localspluskinds'', Struct [(''type'', Uint TYPE_NULL (Some (''null'', ''Not a Python object'')))]),
      (''filename'', Struct [(''type'', Uint TYPE_NULL (Some (''null'', ''Not a Python object'')))]),
      (''name'', Struct [(''type'', Uint TYPE_NULL (Some (''null'', ''Not a Python object'')))]),
      (''qualname'', Struct [(''type'', Uint TYPE_NULL (Some (''null'', ''Not a Python object'')))]),
      (''firstlineno'', Uint 7 None),
      (''linetable'', Struct [(''type'', Uint TYPE_NULL (Some (''null'', ''Not a Python object'')))]),
      (''exceptiontable'', Struct [(''type'', Uint TYPE_NULL (Some (''null'', ''Not a Python object'')))])]
     []"
proof -
  note n = null_decodes[of 0 LittleEndian]
  have "decodes (Suc (Suc 0)) LittleEndian
     (0x63 # 1 # 0 # 0 # 0 # 0 # 0 # 0 # 0 # 0 # 0 # 0 # 0 # 2 # 0 # 0 # 0 # 0x43 # 0 # 0 # 0 #
      0x30 # 0x30 # 0x30 # 0x30 # 0x30 # 0x30 # 0x30 # 0x30 # 7 # 0 # 0 # 0 # 0x30 # 0x30 # [])
     TYPE_CODE
     [(''type'', Uint TYPE_CODE (Some (''code'', ''Code object''))),
      (''argcount'', Sint (le_s32 [1, 0, 0, 0])),
      (''posonlyargcount'', Sint (le_s32 [0, 0, 0, 0])),
      (''kwonlyargcount'', Sint (le_s32 [0, 0, 0, 0])),
      (''stacksize'', Sint (le_s32 [2, 0, 0, 0])),
      (''flags'', Sint (le_s32 [0x43, 0, 0, 0])),
      (''code'', Struct [(''type'', Uint TYPE_NULL (Some (''null'', ''Not a Python object'')))]),
      (''consts'', Struct [(''type'', Uint TYPE_NULL (Some (''null'', ''Not a Python object'')))]),
      (''names'', Struct [(''type'', Uint TYPE_NULL (Some (''null'', ''Not a Python object'')))]),
      (''localsplusnames'', Struct [(''type'', Uint TYPE_NULL (Some (''null'', ''Not a Python object'')))]),
      (''localspluskinds'', Struct [(''type'', Uint TYPE_NULL (Some (''null'', ''Not a Python object'')))]),
      (''filename'', Struct [(''type'', Uint TYPE_NULL (Some (''null'', ''Not a Python object'')))]),
      (''name'', Struct [(''type'', Uint TYPE_NULL (Some (''null'', ''Not a Python object'')))]),
      (''qualname'', Struct [(''type'', Uint TYPE_NULL (Some (''null'', ''Not a Python object'')))]),
      (''firstlineno'', Uint (le_u32 [7, 0, 0, 0]) None),
      (''linetable'', Struct [(''type'', Uint TYPE_NULL (Some (''null'', ''Not a Python object'')))]),
      (''exceptiontable'', Struct [(''type'', Uint TYPE_NULL (Some (''null'', ''Not a Python object'')))])]
     []"
    by (rule code_record_layout[OF n n n n n n n n n n])
  then show ?thesis by (simp add: le_s32_def le_u32_def)
qed


section \<open>Counted sequences\<close>

lemma decode_n_length: "decode_n r n d = Inr (objs, d') \<Longrightarrow> length objs = n"
  by (induction n arbitrary: d objs d') (auto split: sum.splits prod.splits)

lemma decode_n_children: "decode_n r n (d\<lparr>children := c\<rparr>) = decode_n r n d"
  by (cases n) simp_all

lemma repeat_decode_n:
  "repeat n (FieldStruct ''item'' (void r)) d =
     (case decode_n r n d of Inl e \<Rightarrow> Inl e
      | Inr (objs, d') \<Rightarrow> Inr ((), d'\<lparr>children := children d @ items_of objs\<rparr>))"
proof (induction n arbitrary: d)
  case 0
  show ?case by (simp add: ret_def items_of_def)
next
  case (Suc n)
  show ?case
  proof (cases "r (d\<lparr>children := []\<rparr>)")
    case (Inl e)
    then show ?thesis by (simp add: thn_def bnd_def FieldStruct_def void_def)
  next
    case (Inr p)
    obtain ty d1 where p: "p = (ty, d1)" by (cases p)
    let ?d1 = "d1\<lparr>children := children d @ [(''item'', Struct (children d1))]\<rparr>"
    have step: "repeat (Suc n) (FieldStruct ''item'' (void r)) d =
                repeat n (FieldStruct ''item'' (void r)) ?d1"
      using Inr p by (simp add: thn_def bnd_def FieldStruct_def void_def ret_def)
    show ?thesis
      unfolding step Suc.IH decode_n_children
      using Inr p
      by (auto simp: items_of_def split: sum.splits prod.splits)
  qed
qed

lemma read_list_decode_n:
  assumes "0 \<le> n"
  shows "read_list r n d =
     (case decode_n r (nat n) d of Inl e \<Rightarrow> Inl e
      | Inr (objs, d') \<Rightarrow>
          Inr ((), d'\<lparr>children := children d @ [(''items'', Array (items_of objs))]\<rparr>))"
  using assms
  unfolding read_list_def FieldStructNArray_def FieldArray_def repeat_decode_n decode_n_children
  by (auto split: sum.splits prod.splits)


lemma read_list_negative: "n < 0 \<Longrightarrow> read_list r n d = Inl MalformedLength"
  by (simp add: read_list_def FieldStructNArray_def fail_def)

lemma FieldRawLen_negative: "n < 0 \<Longrightarrow> FieldRawLen name n d = Inl MalformedLength"
  by (simp add: FieldRawLen_def read_len_def bnd_def)

lemma FieldStr_negative: "n < 0 \<Longrightarrow> FieldStr name n enc d = Inl MalformedLength"
  by (simp add: FieldStr_def read_text_def read_len_def bnd_def)

lemma negative_count:
  assumes "ucast b AND NOT FLAG_REF \<in>
             {TYPE_TUPLE, TYPE_LIST, TYPE_SET, TYPE_FROZENSET, TYPE_STRING, TYPE_ASCII,
              TYPE_ASCII_INTERNED, TYPE_UNICODE, TYPE_INTERNED}"
    and "le_s32 [n0, n1, n2, n3] < 0"
  shows "r_object (Suc k)
           \<lparr>Endian = LittleEndian, bytes = b # n0 # n1 # n2 # n3 # rest, children = c\<rparr> =
         Inl MalformedLength"
proof -
  have n8: "le_s32 [n0, n1, n2, n3] * 8 < 0" using assms(2) by simp
  note neg = read_list_negative[OF assms(2)] FieldRawLen_negative[OF n8]
    FieldStr_negative[OF assms(2)]
  show ?thesis
    unfolding r_object.simps
    apply (subst read_tag_Cons[where b=b and bs="n0 # n1 # n2 # n3 # rest"], simp)
    using assms(1)
    apply (elim insertE emptyE)
            apply (simp_all add: tag_defs thn_def bnd_def void_def FieldS32_le neg)
    done
qed

lemma zero_count:
  assumes "ucast b AND NOT FLAG_REF \<in> {TYPE_TUPLE, TYPE_LIST, TYPE_SET, TYPE_FROZENSET}"
  shows "decodes (Suc k) LittleEndian (b # 0 # 0 # 0 # 0 # rest) (ucast b AND NOT FLAG_REF)
           [(''type'', Uint (ucast b AND NOT FLAG_REF) (map_of typeMap (ucast b AND NOT FLAG_REF))),
            (''n'', Sint 0),
            (''items'', Array [])] rest"
proof -
  have z: "le_s32 [0, 0, 0, 0] = 0" by (simp add: le_s32_def)
  have rl: "\<And>d. read_list (r_object k) 0 d =
              Inr ((), d\<lparr>children := children d @ [(''items'', Array [])]\<rparr>)"
    by (simp add: read_list_def FieldStructNArray_def FieldArray_def ret_def)
  show ?thesis
    unfolding decodes_def r_object.simps
    apply (subst read_tag_Cons[where b=b and bs="0 # 0 # 0 # 0 # rest"], simp)
    using assms
    apply (elim insertE emptyE)
       apply (simp_all add: tag_defs thn_def bnd_def void_def ret_def FieldS32_le z rl)
    done
qed

lemma container_count:
  assumes t: "ucast b AND NOT FLAG_REF \<in> {TYPE_TUPLE, TYPE_LIST, TYPE_SET, TYPE_FROZENSET}"
    and n: "0 \<le> le_s32 [n0, n1, n2, n3]"
  shows "r_object (Suc k)
           \<lparr>Endian = LittleEndian, bytes = b # n0 # n1 # n2 # n3 # rest, children = c\<rparr> =
         (case decode_n (r_object k) (nat (le_s32 [n0, n1, n2, n3]))
                 \<lparr>Endian = LittleEndian, bytes = rest, children = []\<rparr> of
            Inl e \<Rightarrow> Inl e
          | Inr (objs, d') \<Rightarrow>
              Inr (ucast b AND NOT FLAG_REF,
                   d'\<lparr>children := c @
                      [(''type'', Uint (ucast b AND NOT FLAG_REF)
                                    (map_of typeMap (ucast b AND NOT FLAG_REF))),
                       (''n'', Sint (le_s32 [n0, n1, n2, n3])),
                       (''items'', Array (items_of objs))]\<rparr>))"
proof -
  let ?ty = "ucast b AND NOT FLAG_REF"
  let ?n = "le_s32 [n0, n1, n2, n3]"
  have dn: "\<And>ty. decode_n (r_object k) (nat ?n)
              \<lparr>Endian = LittleEndian, bytes = rest,
                 children = c @ [(''type'', Uint ty (map_of typeMap ty)), (''n'', Sint ?n)]\<rparr> =
            decode_n (r_object k) (nat ?n) \<lparr>Endian = LittleEndian, bytes = rest, children = []\<rparr>"
    using decode_n_children[where r="r_object k" and n="nat ?n"
        and d="\<lparr>Endian = LittleEndian, bytes = rest, children = []\<rparr>"]
    by simp
  have body: "\<And>ty. thn (bnd (FieldS32 ''n'') (\<lambda>n. read_list (r_object k) n)) (ret ty)
          \<lparr>Endian = LittleEndian, bytes = n0 # n1 # n2 # n3 # rest,
             children = c @ [(''type'', Uint ty (map_of typeMap ty))]\<rparr> =
        (case decode_n (r_object k) (nat ?n) \<lparr>Endian = LittleEndian, bytes = rest, children = []\<rparr> of
            Inl e \<Rightarrow> Inl e
          | Inr (objs, d') \<Rightarrow>
              Inr (ty, d'\<lparr>children := c @
                      [(''type'', Uint ty (map_of typeMap ty)),
                       (''n'', Sint ?n),
                       (''items'', Array (items_of objs))]\<rparr>))"
    by (simp add: thn_def bnd_def FieldS32_le ret_def read_list_decode_n[OF n] dn
          split: sum.splits)
  show ?thesis
    unfolding r_object.simps
    apply (subst read_tag_Cons[where b=b and bs="n0 # n1 # n2 # n3 # rest"], simp)
    using t
    apply (elim insertE emptyE)
       apply (simp_all add: tag_defs body cong: sum.case_cong)
    done
qed

text \<open>
  C7. With the little-endian byte order: for tuple, list, set, frozenset, string, ascii
  (also interned) and unicode (also interned), a negative 4-byte count or length makes
  \<open>r_object\<close> fail with MalformedLength; \<open>read_list\<close> fails so for every negative count. For a
  count \<open>n \<ge> 0\<close>, \<open>read_list\<close> does what \<open>decode_n\<close> does: it decodes exactly \<open>n\<close> objects,
  in order, and emits them as the \<open>items\<close> array. So does \<open>r_object\<close> on a tuple, list, set
  or frozenset with declared count \<open>n \<ge> 0\<close>: after the tag and the count it decodes exactly
  \<open>n\<close> objects, in order, starting right after the count field. A count of 0 gives an
  empty array and reads nothing after the count field.
\<close>

theorem counted_sequences:
  "(ucast b AND NOT FLAG_REF \<in>
       {TYPE_TUPLE, TYPE_LIST, TYPE_SET, TYPE_FROZENSET, TYPE_STRING, TYPE_ASCII,
        TYPE_ASCII_INTERNED, TYPE_UNICODE, TYPE_INTERNED} \<and>
    le_s32 [n0, n1, n2, n3] < 0 \<longrightarrow>
    r_object (Suc k)
      \<lparr>Endian = LittleEndian, bytes = b # n0 # n1 # n2 # n3 # rest, children = c\<rparr> =
    Inl MalformedLength) \<and>
   (n < 0 \<longrightarrow> read_list r n d = Inl MalformedLength) \<and>
   (0 \<le> n \<longrightarrow>
    read_list r n d =
      (case decode_n r (nat n) d of
         Inl e \<Rightarrow> Inl e
       | Inr (objs, d') \<Rightarrow>
           Inr ((), d'\<lparr>children := children d @ [(''items'', Array (items_of objs))]\<rparr>)) \<and>
    (case decode_n r (nat n) d of Inl e \<Rightarrow> True | Inr (objs, d') \<Rightarrow> length objs = nat n)) \<and>
   (ucast b AND NOT FLAG_REF \<in> {TYPE_TUPLE, TYPE_LIST, TYPE_SET, TYPE_FROZENSET} \<longrightarrow>
    decodes (Suc k) LittleEndian (b # 0 # 0 # 0 # 0 # rest) (ucast b AND NOT FLAG_REF)
      [(''type'', Uint (ucast b AND NOT FLAG_REF) (map_of typeMap (ucast b AND NOT FLAG_REF))),
       (''n'', Sint 0),
       (''items'', Array [])] rest) \<and>
   (ucast b AND NOT FLAG_REF \<in> {TYPE_TUPLE, TYPE_LIST, TYPE_SET, TYPE_FROZENSET} \<and>
    0 \<le> le_s32 [n0, n1, n2, n3] \<longrightarrow>
    r_object (Suc k)
      \<lparr>Endian = LittleEndian, bytes = b # n0 # n1 # n2 # n3 # rest, children = c\<rparr> =
      (case decode_n (r_object k) (nat (le_s32 [n0, n1, n2, n3]))
              \<lparr>Endian = LittleEndian, bytes = rest, children = []\<rparr> of
         Inl e \<Rightarrow> Inl e
       | Inr (objs, d') \<Rightarrow>
           Inr (ucast b AND NOT FLAG_REF,
                d'\<lparr>children := c @
                   [(''type'', Uint (ucast b AND NOT FLAG_REF)
                                 (map_of typeMap (ucast b AND NOT FLAG_REF))),
                    (''n'', Sint (le_s32 [n0, n1, n2, n3])),
                    (''items'', Array (items_of objs))]\<rparr>)) \<and>
    (case decode_n (r_object k) (nat (le_s32 [n0, n1, n2, n3]))
            \<lparr>Endian = LittleEndian, bytes = rest, children = []\<rparr> of
       Inl e \<Rightarrow> True
     | Inr (objs, d') \<Rightarrow> length objs = nat (le_s32 [n0, n1, n2, n3])))"
proof -
  have len: "\<And>r m d. (case decode_n r m d of Inl e \<Rightarrow> True | Inr (objs, d') \<Rightarrow> length objs = m)"
    by (auto split: sum.splits dest: decode_n_length)
  show ?thesis
    using negative_count[of b n0 n1 n2 n3 k rest c] read_list_negative[of n r d]
      read_list_decode_n[of n r d] zero_count[of b k rest]
      container_count[of b n0 n1 n2 n3 k rest c] len
    by blast
qed

theorem counted_sequences_witness:
  "r_object (Suc 0)
     \<lparr>Endian = LittleEndian, bytes = [0x28, 0xFF, 0xFF, 0xFF, 0xFF, 0x4E], children = []\<rparr> =
     Inl MalformedLength \<and>
   r_object (Suc 0)
     \<lparr>Endian = LittleEndian, bytes = [0xF3, 0xFE, 0xFF, 0xFF, 0xFF, 0x61], children = []\<rparr> =
     Inl MalformedLength \<and>
   read_list (r_object (Suc 0)) (- 1)
     \<lparr>Endian = LittleEndian, bytes = [0x4E, 0x54, 9], children = []\<rparr> = Inl MalformedLength \<and>
   read_list (r_object (Suc 0)) 2
     \<lparr>Endian = LittleEndian, bytes = [0x4E, 0x54, 9], children = []\<rparr> =
     Inr ((), \<lparr>Endian = LittleEndian, bytes = [9],
            children = [(''items'', Array
              [(''item'', Struct [(''type'', Uint TYPE_NONE (Some (''None'', ''Python None'')))]),
               (''item'', Struct [(''type'', Uint TYPE_TRUE (Some (''True'', ''Python True'')))])])]\<rparr>) \<and>
   decodes (Suc 0) LittleEndian [0x28, 0, 0, 0, 0, 9] TYPE_TUPLE
     [(''type'', Uint TYPE_TUPLE (Some (''tuple'', ''Tuple''))),
      (''n'', Sint 0),
      (''items'', Array [])] [9] \<and>
   r_object (Suc (Suc 0))
     \<lparr>Endian = LittleEndian, bytes = [0x5B, 2, 0, 0, 0, 0x4E, 0x54, 9], children = []\<rparr> =
     Inr (TYPE_LIST, \<lparr>Endian = LittleEndian, bytes = [9],
            children =
              [(''type'', Uint TYPE_LIST (Some (''list'', ''List''))),
               (''n'', Sint 2),
               (''items'', Array
                 [(''item'', Struct [(''type'', Uint TYPE_NONE (Some (''None'', ''Python None'')))]),
                  (''item'', Struct [(''type'', Uint TYPE_TRUE (Some (''True'', ''Python True'')))])])]\<rparr>)"
proof -
  let ?d = "\<lparr>Endian = LittleEndian, bytes = [0x4E, 0x54, 9], children = []\<rparr>"
  have t1: "ucast (0x28 :: byte) AND NOT FLAG_REF = TYPE_TUPLE"
    and t2: "ucast (0xF3 :: byte) AND NOT FLAG_REF = TYPE_STRING"
    and t3: "ucast (0x5B :: byte) AND NOT FLAG_REF = TYPE_LIST"
    by (simp_all add: tag_defs FLAG_REF_def)
  have neg: "le_s32 [0xFF, 0xFF, 0xFF, 0xFF] < 0" "le_s32 [0xFE, 0xFF, 0xFF, 0xFF] < 0"
    by (simp_all add: le_s32_def)
  have two: "le_s32 [2, 0, 0, 0] = 2"
    by (simp add: le_s32_def)
  have dn: "decode_n (r_object (Suc 0)) (Suc (Suc 0)) ?d =
     Inr ([[(''type'', Uint TYPE_NONE (Some (''None'', ''Python None'')))],
           [(''type'', Uint TYPE_TRUE (Some (''True'', ''Python True'')))]],
          \<lparr>Endian = LittleEndian, bytes = [9], children = []\<rparr>)"
    by (simp add: run_defs)
  have n2: "nat 2 = Suc (Suc 0)" by simp
  have m: "map_of typeMap TYPE_TUPLE = Some (''tuple'', ''Tuple'')"
    and m2: "map_of typeMap TYPE_LIST = Some (''list'', ''List'')"
    by (simp_all add: typeMap_def tag_defs)
  note A = counted_sequences
      [of "0x28" "0xFF" "0xFF" "0xFF" "0xFF" 0 "[0x4E]" "[]" "- 1" "r_object (Suc 0)" ?d]
  note B = counted_sequences
      [of "0xF3" "0xFE" "0xFF" "0xFF" "0xFF" 0 "[0x61]" "[]" 2 "r_object (Suc 0)" ?d]
  note C = counted_sequences
      [of "0x28" "0xFF" "0xFF" "0xFF" "0xFF" 0 "[9]" "[]" 2 "r_object (Suc 0)" ?d]
  note D = counted_sequences
      [of "0x5B" 2 0 0 0 "Suc 0" "[0x4E, 0x54, 9]" "[]" 2 "r_object (Suc 0)" ?d]
  have 1: "r_object (Suc 0)
     \<lparr>Endian = LittleEndian, bytes = [0x28, 0xFF, 0xFF, 0xFF, 0xFF, 0x4E], children = []\<rparr> =
     Inl MalformedLength"
    using A[THEN conjunct1] neg(1) unfolding t1 by (simp del: r_object.simps)
  have 2: "r_object (Suc 0)
     \<lparr>Endian = LittleEndian, bytes = [0xF3, 0xFE, 0xFF, 0xFF, 0xFF, 0x61], children = []\<rparr> =
     Inl MalformedLength"
    using B[THEN conjunct1] neg(2) unfolding t2 by (simp del: r_object.simps)
  have 3: "read_list (r_object (Suc 0)) (- 1) ?d = Inl MalformedLength"
    using A[THEN conjunct2, THEN conjunct1] by (simp del: r_object.simps)
  have 4: "read_list (r_object (Suc 0)) 2 ?d =
     Inr ((), \<lparr>Endian = LittleEndian, bytes = [9],
            children = [(''items'', Array
              [(''item'', Struct [(''type'', Uint TYPE_NONE (Some (''None'', ''Python None'')))]),
               (''item'', Struct [(''type'', Uint TYPE_TRUE (Some (''True'', ''Python True'')))])])]\<rparr>)"
    using B[THEN conjunct2, THEN conjunct2, THEN conjunct1] unfolding n2 dn
    by (simp add: items_of_def del: r_object.simps)
  have 5: "decodes (Suc 0) LittleEndian [0x28, 0, 0, 0, 0, 9] TYPE_TUPLE
     [(''type'', Uint TYPE_TUPLE (Some (''tuple'', ''Tuple''))),
      (''n'', Sint 0),
      (''items'', Array [])] [9]"
    using C[THEN conjunct2, THEN conjunct2, THEN conjunct2, THEN conjunct1] unfolding t1 m
    by (simp del: r_object.simps)
  have 6: "r_object (Suc (Suc 0))
     \<lparr>Endian = LittleEndian, bytes = [0x5B, 2, 0, 0, 0, 0x4E, 0x54, 9], children = []\<rparr> =
     Inr (TYPE_LIST, \<lparr>Endian = LittleEndian, bytes = [9],
            children =
              [(''type'', Uint TYPE_LIST (Some (''list'', ''List''))),
               (''n'', Sint 2),
               (''items'', Array
                 [(''item'', Struct [(''type'', Uint TYPE_NONE (Some (''None'', ''Python None'')))]),
                  (''item'', Struct [(''type'', Uint TYPE_TRUE (Some (''True'', ''Python True'')))])])]\<rparr>)"
    using D[THEN conjunct2, THEN conjunct2, THEN conjunct2, THEN conjunct2]
    unfolding t3 two n2 dn m2
    by (simp add: items_of_def del: r_object.simps)
  from 1 2 3 4 5 6 show ?thesis by blast
qed


section \<open>Determinism\<close>

named_theorems appends_intros

lemma appendsD:
  "appends m \<Longrightarrow> m d = (case m (d\<lparr>children := []\<rparr>) of
                    Inl e \<Rightarrow> Inl e
                  | Inr (x, d') \<Rightarrow> Inr (x, d'\<lparr>children := children d @ children d'\<rparr>))"
  unfolding appends_def by blast

lemma appends_ret [appends_intros]: "appends (ret x)"
  by (simp add: appends_def ret_def)

lemma appends_bnd [appends_intros]:
  assumes m: "appends m" and f: "\<And>x. appends (f x)"
  shows "appends (bnd m f)"
  unfolding appends_def
proof
  fix d :: D
  show "bnd m f d = (case bnd m f (d\<lparr>children := []\<rparr>) of
                    Inl e \<Rightarrow> Inl e
                  | Inr (x, d') \<Rightarrow> Inr (x, d'\<lparr>children := children d @ children d'\<rparr>))"
  proof (cases "m (d\<lparr>children := []\<rparr>)")
    case (Inl e)
    then show ?thesis unfolding bnd_def appendsD[OF m, of d] by simp
  next
    case (Inr p)
    obtain x d' where p: "p = (x, d')" by (cases p)
    have l: "bnd m f d = f x (d'\<lparr>children := children d @ children d'\<rparr>)"
      unfolding bnd_def appendsD[OF m, of d] using Inr p by simp
    have r: "bnd m f (d\<lparr>children := []\<rparr>) = f x d'"
      unfolding bnd_def using Inr p by simp
    show ?thesis
      unfolding l r
      by (subst appendsD[OF f], subst (2) appendsD[OF f]) (auto split: sum.splits)
  qed
qed

lemma appends_thn [appends_intros]: "appends m \<Longrightarrow> appends m' \<Longrightarrow> appends (thn m m')"
  by (simp add: thn_def appends_bnd)

lemma appends_void [appends_intros]: "appends m \<Longrightarrow> appends (void m)"
  by (simp add: void_def appends_bnd appends_ret)

lemma appends_emit [appends_intros]: "appends (emit name v)"
  by (simp add: appends_def emit_def)

lemma appends_readers [appends_intros]:
  "appends (read_fixed n)" "appends (read_len l)"
  by (simp_all add: appends_def read_fixed_def read_len_def)

lemma appends_FieldU32 [appends_intros]: "appends (FieldU32 name)"
  unfolding FieldU32_def U32_def by (intro appends_intros)

lemma appends_FieldRawLen [appends_intros]: "appends (FieldRawLen name n)"
  unfolding FieldRawLen_def by (intro appends_intros)

lemma appends_FieldStruct [appends_intros]: "appends (FieldStruct name fn)"
  by (auto simp: appends_def FieldStruct_def split: sum.splits)

lemma appends_set_Endian [appends_intros]: "appends (\<lambda>d. Inr ((), d\<lparr>Endian := e\<rparr>))"
  by (simp add: appends_def)

lemma appends_decodePYC: "appends (decodePYC k)"
  unfolding decodePYC_def by (intro appends_intros)

lemma decodePYC_Endian: "decodePYC k (d\<lparr>Endian := e\<rparr>) = decodePYC k d"
  by (simp add: decodePYC_def thn_def bnd_def)

lemma outcome_decodePYC:
  "outcome (decodePYC k) d =
     (case decodePYC k \<lparr>Endian = LittleEndian, bytes = bytes d, children = []\<rparr> of
        Inl e \<Rightarrow> Inl e
      | Inr (u, d') \<Rightarrow> Inr (children d', length (bytes d) - length (bytes d')))"
proof -
  have c: "d\<lparr>Endian := LittleEndian, children := []\<rparr> =
           \<lparr>Endian = LittleEndian, bytes = bytes d, children = []\<rparr>"
    by simp
  have "decodePYC k d = decodePYC k (d\<lparr>Endian := LittleEndian\<rparr>)"
    by (simp add: decodePYC_Endian)
  also have "\<dots> = (case decodePYC k \<lparr>Endian = LittleEndian, bytes = bytes d, children = []\<rparr> of
        Inl e \<Rightarrow> Inl e
      | Inr (x, d') \<Rightarrow> Inr (x, d'\<lparr>children := children d @ children d'\<rparr>))"
    by (subst appendsD[OF appends_decodePYC]) (simp add: c cong: sum.case_cong)
  finally show ?thesis
    unfolding outcome_def by (auto split: sum.splits)
qed

text \<open>
  C10. The outcome of \<open>decodePYC\<close> (the tree it emits and the number of bytes it reads, or
  its failure) is a function of the input bytes alone: two runs on the same bytes have the
  same outcome, whatever byte order the handle had before and whatever fields its compound
  value already held. The recursion budget of the model does not matter either: with any
  two budgets larger than the input, the outcome is the same, and it is not \<open>OutOfFuel\<close>.
\<close>

theorem decode_deterministic:
  assumes "bytes d1 = bytes d2"
  shows "outcome (decodePYC k) d1 = outcome (decodePYC k) d2 \<and>
         (length (bytes d1) < k1 \<and> length (bytes d1) < k2 \<longrightarrow>
            outcome (decodePYC k1) d1 = outcome (decodePYC k2) d2 \<and>
            outcome (decodePYC k1) d1 \<noteq> Inl OutOfFuel)"
proof (intro conjI impI)
  show "outcome (decodePYC k) d1 = outcome (decodePYC k) d2"
    unfolding outcome_decodePYC assms ..
next
  assume h: "length (bytes d1) < k1 \<and> length (bytes d1) < k2"
  have e: "decodePYC k1 d2 = decodePYC k2 d2"
    using decodePYC_fuel_independent[of d2 k1 k2] h assms by simp
  have "outcome (decodePYC k1) d1 = outcome (decodePYC k1) d2"
    unfolding outcome_decodePYC assms ..
  also have "\<dots> = outcome (decodePYC k2) d2"
    unfolding outcome_def e ..
  finally show "outcome (decodePYC k1) d1 = outcome (decodePYC k2) d2" .
  have "decodePYC k1 d1 \<noteq> Inl OutOfFuel"
    using decodePYC_fuel_independent[of d1 k1 k2, THEN conjunct2] h by blast
  then show "outcome (decodePYC k1) d1 \<noteq> Inl OutOfFuel"
    unfolding outcome_def by (auto split: sum.splits)
qed

theorem decode_deterministic_witness:
  "outcome (decodePYC 22)
     \<lparr>Endian = BigEndian,
        bytes = [0xCB, 0x0D, 0x0D, 0x0A, 0, 0, 0, 0, 1, 2, 3, 4, 5, 0, 0, 0, 0x69, 0x2A, 0, 0, 0],
        children = [(''earlier'', Sint 1)]\<rparr> =
   outcome (decodePYC 30)
     \<lparr>Endian = LittleEndian,
        bytes = [0xCB, 0x0D, 0x0D, 0x0A, 0, 0, 0, 0, 1, 2, 3, 4, 5, 0, 0, 0, 0x69, 0x2A, 0, 0, 0],
        children = []\<rparr> \<and>
   outcome (decodePYC 22)
     \<lparr>Endian = BigEndian,
        bytes = [0xCB, 0x0D, 0x0D, 0x0A, 0, 0, 0, 0, 1, 2, 3, 4, 5, 0, 0, 0, 0x69, 0x2A, 0, 0, 0],
        children = [(''earlier'', Sint 1)]\<rparr> \<noteq> Inl OutOfFuel \<and>
   outcome (decodePYC (Suc 0))
     \<lparr>Endian = BigEndian,
        bytes = [0xCB, 0x0D, 0x0D, 0x0A, 0, 0, 0, 0, 1, 2, 3, 4, 5, 0, 0, 0, 0x69, 0x2A, 0, 0, 0],
        children = [(''earlier'', Sint 1)]\<rparr> =
   outcome (decodePYC (Suc 0))
     \<lparr>Endian = LittleEndian,
        bytes = [0xCB, 0x0D, 0x0D, 0x0A, 0, 0, 0, 0, 1, 2, 3, 4, 5, 0, 0, 0, 0x69, 0x2A, 0, 0, 0],
        children = []\<rparr>"
proof -
  let ?d1 = "\<lparr>Endian = BigEndian,
        bytes = [0xCB, 0x0D, 0x0D, 0x0A, 0, 0, 0, 0, 1, 2, 3, 4, 5, 0, 0, 0, 0x69, 0x2A, 0, 0, 0],
        children = [(''earlier'', Sint 1)]\<rparr>"
  let ?d2 = "\<lparr>Endian = LittleEndian,
        bytes = [0xCB, 0x0D, 0x0D, 0x0A, 0, 0, 0, 0, 1, 2, 3, 4, 5, 0, 0, 0, 0x69, 0x2A, 0, 0, 0],
        children = []\<rparr>"
  have b: "bytes ?d1 = bytes ?d2" by simp
  have l: "length (bytes ?d1) < 22 \<and> length (bytes ?d1) < 30" by simp
  from decode_deterministic[OF b, of "Suc 0" 22 30] l show ?thesis by blast
qed

end
